theory Spec2Isabelle
  imports Complex_Main "HOL-Library.Word" "HOL-Library.Multiset"
begin

unbundle bit_operations_syntax

section \<open>Data model of \<^verbatim>\<open>data_download.py\<close>\<close>

text \<open>
  The exceptions that the modelled code and the library calls it makes can raise.
  Every raise of the source is a value \<open>Inl e\<close> of the model.
\<close>

datatype error =
    ValidationError   \<comment> \<open>raised by \<^verbatim>\<open>validate_date_range\<close>\<close>
  | ValueError        \<comment> \<open>\<^verbatim>\<open>datetime(...)\<close> with a field out of range, \<^verbatim>\<open>pd.concat([])\<close>\<close>
  | OverflowError     \<comment> \<open>\<^verbatim>\<open>datetime + timedelta\<close> beyond year 9999\<close>
  | StructError       \<comment> \<open>\<^verbatim>\<open>struct.unpack\<close> on a buffer of the wrong size\<close>
  | LZMAError         \<comment> \<open>\<^verbatim>\<open>lzma.decompress\<close> on corrupt input\<close>
  | KeyError          \<comment> \<open>\<^verbatim>\<open>sort_values\<close> on a frame without the column\<close>
  | OSError           \<comment> \<open>\<^verbatim>\<open>to_csv\<close> on a path that cannot be written\<close>

type_synonym byte = "8 word"
type_synonym bytes = "byte list"
type_synonym u32 = "32 word"

text \<open>
  A \<^verbatim>\<open>float32\<close> field is kept as its IEEE-754 binary32 datum (the four bytes, big-endian):
  \<^verbatim>\<open>struct.unpack\<close> widens it to a Python float without changing its value, and the
  code never computes with it.
\<close>

type_synonym f32 = "32 word"

text \<open>
  The date part of the \<^verbatim>\<open>datetime\<close> objects handed to the downloader: the code reads
  only \<^verbatim>\<open>dt.year\<close>, \<^verbatim>\<open>dt.month\<close> and \<^verbatim>\<open>dt.day\<close>.
\<close>

record pydate =
  year :: int
  month :: int
  day :: int

text \<open>
  An instant is a count of milliseconds since 0001-01-01T00:00:00, the first instant a
  Python \<^verbatim>\<open>datetime\<close> can hold. Every instant the code builds is a whole number of
  milliseconds.
\<close>

type_synonym instant = int

text \<open>One row of the frames the parser builds (the dict appended at lines 143-149).\<close>

record tick =
  timestamp :: instant
  ask :: rat
  bid :: rat
  ask_volume :: f32
  bid_volume :: f32

text \<open>
  A \<^verbatim>\<open>pd.DataFrame\<close> of ticks is the list of its rows, in index order. The frames
  \<^verbatim>\<open>pd.DataFrame()\<close> and \<^verbatim>\<open>pd.DataFrame([])\<close> are both the empty list; they have no
  columns, and \<^verbatim>\<open>df.empty\<close> is \<open>df = []\<close>.
\<close>

type_synonym frame = "tick list"

record downloader =
  pair :: string
  output_dir :: string

section \<open>Python's calendar (\<^verbatim>\<open>datetime\<close>)\<close>

definition is_leap :: "int \<Rightarrow> bool" where
  "is_leap y = (y mod 4 = 0 \<and> (y mod 100 \<noteq> 0 \<or> y mod 400 = 0))"

definition days_before_year :: "int \<Rightarrow> int" where
  "days_before_year y = (y - 1) * 365 + (y - 1) div 4 - (y - 1) div 100 + (y - 1) div 400"

definition days_in_month :: "int \<Rightarrow> int \<Rightarrow> int" where
  "days_in_month y m =
     (if m = 2 then (if is_leap y then 29 else 28)
      else if m = 4 \<or> m = 6 \<or> m = 9 \<or> m = 11 then 30 else 31)"

definition days_before_month :: "int \<Rightarrow> int \<Rightarrow> int" where
  "days_before_month y m =
     [0, 31, 59, 90, 120, 151, 181, 212, 243, 273, 304, 334] ! nat (m - 1)
       + (if 2 < m \<and> is_leap y then 1 else 0)"

definition ymd2ord :: "int \<Rightarrow> int \<Rightarrow> int \<Rightarrow> int" where
  "ymd2ord y m d = days_before_year y + days_before_month y m + d"

definition MAXORDINAL :: int where
  "MAXORDINAL = 3652059"

definition MS_PER_DAY :: int where
  "MS_PER_DAY = 86400000"

definition valid_date :: "pydate \<Rightarrow> bool" where
  "valid_date dt =
     (1 \<le> year dt \<and> year dt \<le> 9999 \<and> 1 \<le> month dt \<and> month dt \<le> 12 \<and>
      1 \<le> day dt \<and> day dt \<le> days_in_month (year dt) (month dt))"

text \<open>
  \<^verbatim>\<open>datetime(year, month, day, hour, 0, 0)\<close>: the constructor checks every field and
  raises \<^verbatim>\<open>ValueError\<close> when one is out of range.
\<close>

definition datetime_new :: "int \<Rightarrow> int \<Rightarrow> int \<Rightarrow> int \<Rightarrow> error + instant" where
  "datetime_new y m d h =
     (if 1 \<le> y \<and> y \<le> 9999 \<and> 1 \<le> m \<and> m \<le> 12 \<and> 1 \<le> d \<and> d \<le> days_in_month y m \<and>
         0 \<le> h \<and> h \<le> 23
      then Inr (((ymd2ord y m d - 1) * 24 + h) * 3600000)
      else Inl ValueError)"

text \<open>
  \<^verbatim>\<open>base_time + timedelta(milliseconds=ms)\<close>: the sum is a \<^verbatim>\<open>datetime\<close> when its day
  ordinal lies in \<open>1..MAXORDINAL\<close>, and \<^verbatim>\<open>OverflowError\<close> is raised otherwise.
\<close>

definition datetime_add_ms :: "instant \<Rightarrow> int \<Rightarrow> error + instant" where
  "datetime_add_ms t ms =
     (let ordinal = (t + ms) div MS_PER_DAY + 1
      in if 0 < ordinal \<and> ordinal \<le> MAXORDINAL then Inr (t + ms) else Inl OverflowError)"

section \<open>Python's float division on integers\<close>

text \<open>
  \<^verbatim>\<open>n / 100000.0\<close> converts the integer to binary64 (exactly, below \<open>2 ^ 53\<close>) and divides
  in binary64: the result is the binary64 number nearest to the exact quotient, ties to
  the even significand (IEEE 754, round to nearest). The dividend here is an unsigned
  32-bit integer and the divisor is 100000, so a quotient that is not zero lies in the
  normal range, and the result is a 53-bit significand times a power of two; it is kept
  as the rational number it denotes. \<open>float_truediv a b\<close> is that result for the integers
  \<open>a\<close> and \<open>b\<close>.
\<close>

fun bit_length :: "nat \<Rightarrow> nat" where
  "bit_length n = (if n = 0 then 0 else Suc (bit_length (n div 2)))"

declare bit_length.simps [simp del]

text \<open>The quotient \<open>n / d\<close> rounded to the nearest integer, ties to the even one.\<close>

definition round_half_even_div :: "nat \<Rightarrow> nat \<Rightarrow> nat" where
  "round_half_even_div n d =
     (let q = n div d; r = n mod d
      in if 2 * r < d then q else if d < 2 * r then q + 1 else if even q then q else q + 1)"

definition pow2 :: "int \<Rightarrow> rat" where
  "pow2 e = (if 0 \<le> e then 2 ^ nat e else 1 / 2 ^ nat (- e))"

text \<open>The exponent \<open>e\<close> with \<open>2 ^ e \<le> a / b < 2 ^ (e + 1)\<close>, for positive \<open>a\<close> and \<open>b\<close>.\<close>

definition quotient_exponent :: "nat \<Rightarrow> nat \<Rightarrow> int" where
  "quotient_exponent a b =
     (let k = int (bit_length a) - int (bit_length b)
      in if b * 2 ^ nat k \<le> a * 2 ^ nat (- k) then k else k - 1)"

definition float_truediv :: "nat \<Rightarrow> nat \<Rightarrow> rat" where
  "float_truediv a b =
     (if a = 0 then 0
      else let e = quotient_exponent a b;
               s = 52 - e;
               m = round_half_even_div (a * 2 ^ nat s) (b * 2 ^ nat (- s))
           in of_nat m * pow2 (e - 52))"

section \<open>\<^verbatim>\<open>struct.unpack('>IIIff', chunk)\<close>\<close>

text \<open>
  The unsigned integer a byte string denotes in big-endian order (the first byte is the
  most significant), as \<^verbatim>\<open>int.from_bytes(bs, 'big')\<close> computes it.
\<close>

definition be_nat :: "bytes \<Rightarrow> nat" where
  "be_nat bs = foldl (\<lambda>acc b. acc * 256 + unat b) 0 bs"

definition be_word :: "bytes \<Rightarrow> 32 word" where
  "be_word bs = word_of_nat (be_nat bs)"

text \<open>
  Python's slice \<^verbatim>\<open>data[lo:hi]\<close> for \<open>0 \<le> lo \<le> hi\<close>: it never raises, and is shorter
  than \<open>hi - lo\<close> when the buffer ends early.
\<close>

definition slice :: "'a list \<Rightarrow> nat \<Rightarrow> nat \<Rightarrow> 'a list" where
  "slice xs lo hi = take (hi - lo) (drop lo xs)"

definition struct_unpack_IIIff :: "bytes \<Rightarrow> error + (u32 \<times> u32 \<times> u32 \<times> f32 \<times> f32)" where
  "struct_unpack_IIIff chunk =
     (if length chunk \<noteq> 20 then Inl StructError
      else Inr (be_word (slice chunk 0 4), be_word (slice chunk 4 8), be_word (slice chunk 8 12),
                be_word (slice chunk 12 16), be_word (slice chunk 16 20)))"

section \<open>The record parser \<^verbatim>\<open>_parse_bi5\<close>\<close>

text \<open>
  The body of the loop at lines 129-149, for index \<open>i\<close>: the new value of \<^verbatim>\<open>ticks\<close>, or
  the exception that \<^verbatim>\<open>struct.unpack\<close> or the \<^verbatim>\<open>datetime\<close> addition raises.
\<close>

definition parse_step :: "bytes \<Rightarrow> instant \<Rightarrow> nat \<Rightarrow> tick list \<Rightarrow> error + tick list" where
  "parse_step data base_time i ticks =
     (let chunk_size = 20;
          chunk = slice data (i * chunk_size) ((i + 1) * chunk_size)
      in case struct_unpack_IIIff chunk of
           Inl e \<Rightarrow> Inl e
         | Inr (timestamp_ms, ask_int, bid_int, ask_vol, bid_vol) \<Rightarrow>
             (case datetime_add_ms base_time (uint timestamp_ms) of
                Inl e \<Rightarrow> Inl e
              | Inr ts \<Rightarrow>
                  Inr (ticks @ [\<lparr>timestamp = ts,
                                 ask = float_truediv (unat ask_int) 100000,
                                 bid = float_truediv (unat bid_int) 100000,
                                 ask_volume = ask_vol,
                                 bid_volume = bid_vol\<rparr>])))"

text \<open>The loop \<^verbatim>\<open>for i in range(num_ticks)\<close>, over the indices still to visit.\<close>

fun parse_loop :: "bytes \<Rightarrow> instant \<Rightarrow> nat list \<Rightarrow> tick list \<Rightarrow> error + tick list" where
  "parse_loop data base_time [] ticks = Inr ticks"
| "parse_loop data base_time (i # is) ticks =
     (case parse_step data base_time i ticks of
        Inl e \<Rightarrow> Inl e
      | Inr ticks' \<Rightarrow> parse_loop data base_time is ticks')"

definition parse_bi5 :: "bytes \<Rightarrow> pydate \<Rightarrow> int \<Rightarrow> error + frame" where
  "parse_bi5 data dt hour =
     (if length data = 0 then Inr []
      else let chunk_size = 20;
               num_ticks = length data div chunk_size
           in case datetime_new (year dt) (month dt) (day dt) hour of
                Inl e \<Rightarrow> Inl e
              | Inr base_time \<Rightarrow> parse_loop data base_time [0..<num_ticks] [])"

section \<open>The resource locator \<^verbatim>\<open>_get_tick_url\<close>\<close>

definition BASE_URL :: string where
  "BASE_URL = ''https://datafeed.dukascopy.com/datafeed''"

definition digit_char :: "nat \<Rightarrow> char" where
  "digit_char d = ''0123456789'' ! d"

text \<open>The decimal digits of a natural number, as \<^verbatim>\<open>str\<close> writes them.\<close>

fun decimal :: "nat \<Rightarrow> string" where
  "decimal n = (if n < 10 then [digit_char n] else decimal (n div 10) @ [digit_char (n mod 10)])"

declare decimal.simps [simp del]

text \<open>
  The format specification \<^verbatim>\<open>0wd\<close> of an f-string: the sign first when the number is
  negative, then zeros up to the width \<open>w\<close>, then the digits. A number with more digits
  than the width is written in full.
\<close>

definition format_0d :: "nat \<Rightarrow> int \<Rightarrow> string" where
  "format_0d w n =
     (if n < 0
      then CHR ''-'' # replicate (w - 1 - length (decimal (nat (- n)))) CHR ''0''
             @ decimal (nat (- n))
      else replicate (w - length (decimal (nat n))) CHR ''0'' @ decimal (nat n))"

definition get_tick_url :: "downloader \<Rightarrow> pydate \<Rightarrow> int \<Rightarrow> string" where
  "get_tick_url self dt hour =
     (let year = year dt;
          month = month dt - 1;
          day = day dt
      in BASE_URL @ ''/'' @ pair self @ ''/''
           @ format_0d 4 year @ ''/'' @ format_0d 2 month @ ''/'' @ format_0d 2 day @ ''/''
           @ format_0d 2 hour @ ''h_ticks.bi5'')"

section \<open>The collaborators outside the file\<close>

text \<open>
  What \<^verbatim>\<open>requests.get(url, timeout=30)\<close> does: it returns a response with a status code
  and a body, or raises (a timeout, a transport error).
\<close>

datatype http_result = Response int bytes | RequestRaised

text \<open>
  The behaviour of everything the file calls and does not define is a parameter of the
  model: the network, \<^verbatim>\<open>lzma.decompress\<close>, the two helpers of \<^verbatim>\<open>utils\<close> (whose source is
  not part of the file; either may raise), the order in which
  \<^verbatim>\<open>sort_values('timestamp')\<close> puts the rows of a frame that has the column, and the
  file system: \<open>fs_write env p\<close> is \<open>None\<close> when the file \<open>p\<close> can be created and written,
  and \<open>Some e\<close> when opening it raises \<open>e\<close> (the directory is missing, the path is not
  writable).
\<close>

record env =
  http_get :: "string \<Rightarrow> http_result"
  lzma_decompress :: "bytes \<Rightarrow> error + bytes"
  validate_date_range :: "string \<Rightarrow> string \<Rightarrow> error + (pydate \<times> pydate)"
  generate_date_range :: "pydate \<Rightarrow> pydate \<Rightarrow> error + pydate list"
  sort_rows :: "frame \<Rightarrow> frame"
  fs_write :: "string \<Rightarrow> error option"

section \<open>Fetcher and decompressor\<close>

text \<open>The result \<open>None\<close> is Python's \<^verbatim>\<open>None\<close>: every failure is turned into it.\<close>

definition download_file :: "env \<Rightarrow> string \<Rightarrow> bytes option" where
  "download_file env url =
     (case http_get env url of
        Response status_code content \<Rightarrow> if status_code = 200 then Some content else None
      | RequestRaised \<Rightarrow> None)"

definition decompress_bi5 :: "env \<Rightarrow> bytes \<Rightarrow> error + bytes" where
  "decompress_bi5 env compressed_data = lzma_decompress env compressed_data"

section \<open>The day orchestrator \<^verbatim>\<open>download_day\<close>\<close>

text \<open>
  \<^verbatim>\<open>pd.concat(frames, ignore_index=True)\<close> raises \<^verbatim>\<open>ValueError\<close> on an empty list, and
  otherwise puts the rows of the frames one after the other.
\<close>

definition pd_concat :: "frame list \<Rightarrow> error + frame" where
  "pd_concat frames = (if frames = [] then Inl ValueError else Inr (concat frames))"

text \<open>
  One turn of the loop over the hours (lines 167-189). The state is the list
  \<^verbatim>\<open>day_ticks\<close> and the URLs requested so far; each \<^verbatim>\<open>continue\<close> and each handled
  exception leaves \<^verbatim>\<open>day_ticks\<close> as it is.
\<close>

definition hour_body ::
  "env \<Rightarrow> downloader \<Rightarrow> pydate \<Rightarrow> frame list \<times> string list \<Rightarrow> int \<Rightarrow> frame list \<times> string list"
where
  "hour_body env self dt st hour =
     (let day_ticks = fst st;
          url = get_tick_url self dt hour;
          requested = snd st @ [url]
      in case download_file env url of
           None \<Rightarrow> (day_ticks, requested)
         | Some compressed_data \<Rightarrow>
             (case decompress_bi5 env compressed_data of
                Inl e \<Rightarrow> (day_ticks, requested)
              | Inr decompressed_data \<Rightarrow>
                  (case parse_bi5 decompressed_data dt hour of
                     Inl e \<Rightarrow> (day_ticks, requested)
                   | Inr hour_df \<Rightarrow>
                       if hour_df \<noteq> [] then (day_ticks @ [hour_df], requested)
                       else (day_ticks, requested))))"

text \<open>The result is the returned frame, or the exception raised, and the URLs requested.\<close>

definition download_day :: "env \<Rightarrow> downloader \<Rightarrow> pydate \<Rightarrow> (error + frame) \<times> string list" where
  "download_day env self dt =
     (let st = foldl (hour_body env self dt) ([], []) [0..23];
          day_ticks = fst st
      in if day_ticks = [] then (Inr [], snd st)
         else (pd_concat day_ticks, snd st))"

section \<open>The range orchestrator \<^verbatim>\<open>download_range\<close>\<close>

text \<open>
  \<^verbatim>\<open>df.sort_values('timestamp')\<close> raises \<^verbatim>\<open>KeyError\<close> on a frame without the column; the
  frames of this program without it are the empty ones. The call names no \<^verbatim>\<open>kind\<close>, so
  the rows are ordered by the library's default algorithm, \<open>sort_rows env\<close>.
  \<^verbatim>\<open>reset_index(drop=True)\<close> renumbers the rows and keeps their order.
\<close>

definition sort_values :: "env \<Rightarrow> frame \<Rightarrow> error + frame" where
  "sort_values env df = (if df = [] then Inl KeyError else Inr (sort_rows env df))"

text \<open>\<^verbatim>\<open>os.path.join(a, b)\<close> on a POSIX system.\<close>

definition os_path_join :: "string \<Rightarrow> string \<Rightarrow> string" where
  "os_path_join a b =
     (if b \<noteq> [] \<and> hd b = CHR ''/'' then b
      else if a = [] \<or> last a = CHR ''/'' then a @ b
      else a @ ''/'' @ b)"

text \<open>
  A file written by \<^verbatim>\<open>to_csv(filepath, index=False)\<close>: a header line with the frame's
  columns, in the order of the keys of the dicts the parser appends, and one line per
  row. The call raises when the file cannot be opened for writing, and then there is no
  file.
\<close>

record csv_file =
  path :: string
  header :: "string list"
  rows :: frame

definition columns :: "string list" where
  "columns = [''timestamp'', ''ask'', ''bid'', ''ask_volume'', ''bid_volume'']"

definition to_csv :: "env \<Rightarrow> frame \<Rightarrow> string \<Rightarrow> error + csv_file" where
  "to_csv env df filepath =
     (case fs_write env filepath of
        Some e \<Rightarrow> Inl e
      | None \<Rightarrow> Inr \<lparr>path = filepath, header = columns, rows = df\<rparr>)"

text \<open>What a run has done to the outside: the URLs requested and the files written.\<close>

record effects =
  requests :: "string list"
  files :: "csv_file list"

text \<open>
  The loop over the dates (lines 220-223). An exception of \<^verbatim>\<open>download_day\<close> would leave
  the loop.
\<close>

fun range_loop ::
  "env \<Rightarrow> downloader \<Rightarrow> pydate list \<Rightarrow> frame list \<Rightarrow> string list
     \<Rightarrow> (error + frame list) \<times> string list"
where
  "range_loop env self [] all_ticks requested = (Inr all_ticks, requested)"
| "range_loop env self (dt # dts) all_ticks requested =
     (case download_day env self dt of
        (Inl e, urls) \<Rightarrow> (Inl e, requested @ urls)
      | (Inr day_df, urls) \<Rightarrow>
          range_loop env self dts
            (if day_df \<noteq> [] then all_ticks @ [day_df] else all_ticks) (requested @ urls))"

definition download_range ::
  "env \<Rightarrow> downloader \<Rightarrow> string \<Rightarrow> string \<Rightarrow> bool \<Rightarrow> (error + frame) \<times> effects"
where
  "download_range env self start_date end_date save =
     (case validate_date_range env start_date end_date of
        Inl e \<Rightarrow> (Inl e, \<lparr>requests = [], files = []\<rparr>)
      | Inr (start_dt, end_dt) \<Rightarrow>
     (case generate_date_range env start_dt end_dt of
        Inl e \<Rightarrow> (Inl e, \<lparr>requests = [], files = []\<rparr>)
      | Inr dates \<Rightarrow>
     (case range_loop env self dates [] [] of
        (Inl e, requested) \<Rightarrow> (Inl e, \<lparr>requests = requested, files = []\<rparr>)
      | (Inr all_ticks, requested) \<Rightarrow>
          if all_ticks = [] then (Inr [], \<lparr>requests = requested, files = []\<rparr>)
          else
     (case pd_concat all_ticks of
        Inl e \<Rightarrow> (Inl e, \<lparr>requests = requested, files = []\<rparr>)
      | Inr combined \<Rightarrow>
     (case sort_values env combined of
        Inl e \<Rightarrow> (Inl e, \<lparr>requests = requested, files = []\<rparr>)
      | Inr combined_df \<Rightarrow>
          if save
          then let filename = pair self @ ''_'' @ start_date @ ''_'' @ end_date @ ''.csv'';
                   filepath = os_path_join (output_dir self) filename
               in (case to_csv env combined_df filepath of
                     Inl e \<Rightarrow> (Inl e, \<lparr>requests = requested, files = []\<rparr>)
                   | Inr written \<Rightarrow>
                       (Inr combined_df, \<lparr>requests = requested, files = [written]\<rparr>))
          else (Inr combined_df, \<lparr>requests = requested, files = []\<rparr>))))))"

section \<open>What the parser is expected to produce\<close>

text \<open>The hour's start instant: midnight of the date plus \<open>hour\<close> hours.\<close>

definition hour_start :: "pydate \<Rightarrow> int \<Rightarrow> instant" where
  "hour_start dt hour =
     ((ymd2ord (year dt) (month dt) (day dt) - 1) * 24 + hour) * 3600000"

text \<open>The \<open>i\<close>-th 20-byte record of a buffer.\<close>

definition record_at :: "bytes \<Rightarrow> nat \<Rightarrow> bytes" where
  "record_at data i = take 20 (drop (20 * i) data)"

text \<open>The big-endian unsigned 32-bit integer in bytes \<open>k .. k + 3\<close> of a record.\<close>

definition field_u32 :: "bytes \<Rightarrow> nat \<Rightarrow> nat" where
  "field_u32 c k =
     unat (c ! k) * 2 ^ 24 + unat (c ! (k + 1)) * 2 ^ 16 + unat (c ! (k + 2)) * 2 ^ 8
       + unat (c ! (k + 3))"

text \<open>
  The last instant a \<^verbatim>\<open>datetime\<close> can hold is one millisecond step before
  \<open>END_OF_TIME\<close>, the end of 9999-12-31.
\<close>

definition END_OF_TIME :: instant where
  "END_OF_TIME = MAXORDINAL * MS_PER_DAY"

text \<open>
  The timestamp of every complete record of the buffer, the hour's start plus the
  record's offset, is an instant a \<^verbatim>\<open>datetime\<close> can hold.
\<close>

definition timestamps_fit :: "bytes \<Rightarrow> pydate \<Rightarrow> int \<Rightarrow> bool" where
  "timestamps_fit data dt hour =
     (\<forall>i < length data div 20.
        hour_start dt hour + int (field_u32 (record_at data i) 0) < END_OF_TIME)"

text \<open>
  Every offset of 32 bits added to the hour's start is still a \<^verbatim>\<open>datetime\<close>: the hour
  starts no later than 9999-11-12T06:00, and the timestamps of every buffer fit.
\<close>

definition hour_in_range :: "pydate \<Rightarrow> int \<Rightarrow> bool" where
  "hour_in_range dt hour = (hour_start dt hour + 2 ^ 32 \<le> END_OF_TIME)"

text \<open>The tick a 20-byte record denotes, for an hour starting at \<open>base\<close>.\<close>

definition record_tick :: "instant \<Rightarrow> bytes \<Rightarrow> tick" where
  "record_tick base c =
     \<lparr>timestamp = base + int (field_u32 c 0),
      ask = float_truediv (field_u32 c 4) 100000,
      bid = float_truediv (field_u32 c 8) 100000,
      ask_volume = word_of_nat (field_u32 c 12),
      bid_volume = word_of_nat (field_u32 c 16)\<rparr>"

section \<open>The fields of a resource path\<close>

text \<open>A number below 100 in exactly two decimal digits, and one below 10000 in four.\<close>

definition two_digits :: "nat \<Rightarrow> string" where
  "two_digits n = [digit_char (n div 10), digit_char (n mod 10)]"

definition four_digits :: "nat \<Rightarrow> string" where
  "four_digits n =
     [digit_char (n div 1000), digit_char (n div 100 mod 10), digit_char (n div 10 mod 10),
      digit_char (n mod 10)]"

section \<open>What an hour contributes to its day\<close>

text \<open>
  The records of one hour: those the parser returns for the decompressed payload of the
  hour's resource, and none when the fetch, the decompression or the parse fails.
\<close>

definition hour_records :: "env \<Rightarrow> downloader \<Rightarrow> pydate \<Rightarrow> int \<Rightarrow> frame" where
  "hour_records env self dt hour =
     (case download_file env (get_tick_url self dt hour) of
        None \<Rightarrow> []
      | Some compressed \<Rightarrow>
          (case decompress_bi5 env compressed of
             Inl e \<Rightarrow> []
           | Inr raw \<Rightarrow> (case parse_bi5 raw dt hour of Inl e \<Rightarrow> [] | Inr df \<Rightarrow> df)))"

text \<open>The URLs of a day, in hour order, and the records of a day.\<close>

definition day_urls :: "downloader \<Rightarrow> pydate \<Rightarrow> string list" where
  "day_urls self dt = map (get_tick_url self dt) [0..23]"

definition day_records :: "env \<Rightarrow> downloader \<Rightarrow> pydate \<Rightarrow> frame" where
  "day_records env self dt = concat (map (hour_records env self dt) [0..23])"

section \<open>What a range of dates contributes\<close>

definition range_records :: "env \<Rightarrow> downloader \<Rightarrow> pydate list \<Rightarrow> frame" where
  "range_records env self dates = concat (map (day_records env self) dates)"

definition range_urls :: "downloader \<Rightarrow> pydate list \<Rightarrow> string list" where
  "range_urls self dates = concat (map (day_urls self) dates)"

text \<open>
  What the library promises of \<^verbatim>\<open>sort_values\<close> with its default \<^verbatim>\<open>kind\<close>, which is
  \<^verbatim>\<open>'quicksort'\<close>: the rows come back in ascending order of the key, each row once. The
  default algorithm is not a stable one, so nothing is promised about rows with equal
  keys.
\<close>

definition sorts_by_timestamp :: "(frame \<Rightarrow> frame) \<Rightarrow> bool" where
  "sorts_by_timestamp srt = (\<forall>df. sorted (map timestamp (srt df)) \<and> mset (srt df) = mset df)"

text \<open>The name of the output file of a run.\<close>

definition csv_path :: "downloader \<Rightarrow> string \<Rightarrow> string \<Rightarrow> string" where
  "csv_path self start_date end_date =
     os_path_join (output_dir self) (pair self @ ''_'' @ start_date @ ''_'' @ end_date @ ''.csv'')"

section \<open>Worked examples\<close>

text \<open>
  One record: offset 5 ms, scaled ask 112345, scaled bid 112336, volumes 1.0 and 2.0;
  and the hour 03:00 of 2024-01-15.
\<close>

definition example_record :: bytes where
  "example_record =
     [0x00, 0x00, 0x00, 0x05,  0x00, 0x01, 0xB6, 0xD9,  0x00, 0x01, 0xB6, 0xD0,
      0x3F, 0x80, 0x00, 0x00,  0x40, 0x00, 0x00, 0x00]"

definition example_date :: pydate where
  "example_date = \<lparr>year = 2024, month = 1, day = 15\<rparr>"

definition example_tick :: tick where
  "example_tick =
     \<lparr>timestamp = 63840884400005,
      ask = 632446125171173 / 562949953421312,
      bid = 632395459675365 / 562949953421312,
      ask_volume = 0x3F800000,
      bid_volume = 0x40000000\<rparr>"

text \<open>
  A record whose offset is 3600000 ms, one hour; and the last day a \<^verbatim>\<open>datetime\<close> can
  hold.
\<close>

definition late_record :: bytes where
  "late_record =
     [0x00, 0x36, 0xEE, 0x80,  0x00, 0x01, 0xB6, 0xD9,  0x00, 0x01, 0xB6, 0xD0,
      0x3F, 0x80, 0x00, 0x00,  0x40, 0x00, 0x00, 0x00]"

definition last_date :: pydate where
  "last_date = \<lparr>year = 9999, month = 12, day = 31\<rparr>"

text \<open>The tick of the example record in the last hour of that day.\<close>

definition last_hour_tick :: tick where
  "last_hour_tick = example_tick\<lparr>timestamp := 315537894000005\<rparr>"

text \<open>The downloader of the examples.\<close>

definition eurusd :: downloader where
  "eurusd = \<lparr>pair = ''EURUSD'', output_dir = ''data/raw''\<rparr>"

subsection \<open>A mixed day\<close>

text \<open>
  For the pair \<^verbatim>\<open>EURUSD\<close> on 2024-01-15: hour 2 serves a payload of 100 records, hour 5
  one of 50 records, hour 7 an empty payload that does not decompress, the request for
  hour 9 raises, and every other resource answers 404. Decompression of a non-empty
  payload is the identity here, the library's sort is a stable one, and every file can
  be written.
\<close>

definition example_env :: env where
  "example_env =
     \<lparr>http_get = (\<lambda>url.
         if url = get_tick_url eurusd example_date 2 then Response 200 (replicate 2000 0)
         else if url = get_tick_url eurusd example_date 5 then Response 200 (replicate 1000 0)
         else if url = get_tick_url eurusd example_date 7 then Response 200 []
         else if url = get_tick_url eurusd example_date 9 then RequestRaised
         else Response 404 []),
      lzma_decompress = (\<lambda>c. if c = [] then Inl LZMAError else Inr c),
      validate_date_range = (\<lambda>s e.
         if s = ''2024-01-15'' \<and> e = ''2024-01-15'' then Inr (example_date, example_date)
         else Inl ValidationError),
      generate_date_range = (\<lambda>s e. Inr [s]),
      sort_rows = sort_key timestamp,
      fs_write = (\<lambda>p. None)\<rparr>"

subsection \<open>Three more worlds\<close>

text \<open>A world in which no resource can be fetched: every request raises.\<close>

definition dead_env :: env where
  "dead_env =
     \<lparr>http_get = (\<lambda>url. RequestRaised),
      lzma_decompress = (\<lambda>c. Inr c),
      validate_date_range = (\<lambda>s e. Inr (example_date, example_date)),
      generate_date_range = (\<lambda>s e. Inr [s]),
      sort_rows = sort_key timestamp,
      fs_write = (\<lambda>p. None)\<rparr>"

text \<open>
  A world for the last day of the calendar, 9999-12-31, in which every resource serves
  one record whose offset is one hour.
\<close>

definition late_env :: env where
  "late_env =
     \<lparr>http_get = (\<lambda>url. Response 200 late_record),
      lzma_decompress = (\<lambda>c. Inr c),
      validate_date_range = (\<lambda>s e. Inr (last_date, last_date)),
      generate_date_range = (\<lambda>s e. Inr [s]),
      sort_rows = sort_key timestamp,
      fs_write = (\<lambda>p. None)\<rparr>"

text \<open>
  A world whose output directory cannot be written. Hour 3 of 2024-01-15 serves the
  example record as an LZMA stream (the 40 bytes that \<^verbatim>\<open>lzma.compress\<close> gives for it in
  the \<^verbatim>\<open>FORMAT_ALONE\<close> container, which \<^verbatim>\<open>lzma.decompress\<close> turns back into the
  record); every other resource answers 404. A frame of one row is its own sorted
  order.
\<close>

definition lzma_example :: bytes where
  "lzma_example =
     [93, 0, 0, 128, 0, 255, 255, 255, 255, 255, 255, 255, 255, 0, 0, 103, 255, 159, 251, 43,
      194, 184, 140, 57, 13, 101, 220, 239, 188, 5, 114, 14, 14, 20, 95, 255, 147, 93, 128, 0]"

definition locked_env :: env where
  "locked_env =
     \<lparr>http_get = (\<lambda>url.
         if url = get_tick_url eurusd example_date 3 then Response 200 lzma_example
         else Response 404 []),
      lzma_decompress = (\<lambda>c. if c = lzma_example then Inr example_record else Inl LZMAError),
      validate_date_range = (\<lambda>s e. Inr (example_date, example_date)),
      generate_date_range = (\<lambda>s e. Inr [s]),
      sort_rows = sort_key timestamp,
      fs_write = (\<lambda>p. Some OSError)\<rparr>"

section \<open>Bytes, records and fields\<close>

lemma slice_chunk: "slice data (i * 20) ((i + 1) * 20) = record_at data i"
  by (simp add: slice_def record_at_def mult.commute)

lemma length_record_at: "i < length data div 20 \<Longrightarrow> length (record_at data i) = 20"
  by (simp add: record_at_def)

lemma be_nat4: "be_nat [b0, b1, b2, b3] = unat b0 * 2 ^ 24 + unat b1 * 2 ^ 16 + unat b2 * 2 ^ 8 + unat b3"
  by (simp add: be_nat_def)

lemma slice_field:
  assumes "length c = 20" "k + 4 \<le> 20"
  shows "slice c k (k + 4) = [c ! k, c ! (k + 1), c ! (k + 2), c ! (k + 3)]"
  using assms by (auto simp: slice_def list_eq_iff_nth_eq nth_Cons numeral_3_eq_3 numeral_2_eq_2 split: nat.splits)

lemma unat_byte_less: "unat (b :: byte) < 256"
  using unsigned_less [of b, where ?'a = nat] by simp

lemma field_u32_less: "field_u32 c k < 2 ^ 32"
proof -
  have "unat (c ! k) < 256" "unat (c ! (k + 1)) < 256" "unat (c ! (k + 2)) < 256" "unat (c ! (k + 3)) < 256"
    by (rule unat_byte_less)+
  then show ?thesis unfolding field_u32_def by simp
qed

lemma be_nat_field:
  assumes "length c = 20" "k + 4 \<le> 20"
  shows "be_nat (slice c k (k + 4)) = field_u32 c k"
  by (simp add: slice_field[OF assms] be_nat4 field_u32_def)

section \<open>The float model rounds to the nearest binary64 number\<close>

text \<open>
  For positive \<open>a\<close> and \<open>b\<close>, \<open>float_truediv a b\<close> is a 53-bit significand times
  \<open>2 ^ (e - 52)\<close>, where \<open>2 ^ e \<le> a / b < 2 ^ (e + 1)\<close>, and it is within half a unit
  in the last place of the exact quotient. For the prices of a record (a 32-bit integer
  over 100000) the exponent lies in \<open>- 17 .. 15\<close>, well inside the normal range of
  binary64.
\<close>

lemma pow2_powi: "pow2 e = 2 powi e"
  by (simp add: pow2_def power_int_def inverse_eq_divide power_one_over)

lemma pow2_pos: "0 < pow2 e"
  by (simp add: pow2_powi)

lemma pow2_add: "pow2 (x + y) = pow2 x * pow2 y"
  by (simp add: pow2_powi power_int_add)

lemma pow2_nat: "pow2 (int n) = 2 ^ n"
  by (simp add: pow2_powi)

lemma bit_length_bounds:
  "0 < n \<Longrightarrow> 2 ^ (bit_length n - 1) \<le> n \<and> n < 2 ^ bit_length n"
proof (induction n rule: bit_length.induct)
  case (1 n)
  show ?case
  proof (cases "n div 2 = 0")
    case True
    with "1.prems" have "n = 1" by (simp add: div_eq_0_iff)
    then show ?thesis
      by (simp add: bit_length.simps)
  next
    case False
    then have pos: "0 < n div 2" by simp
    from "1.IH" [OF _ pos] "1.prems"
    have ih: "2 ^ (bit_length (n div 2) - 1) \<le> n div 2" "n div 2 < 2 ^ bit_length (n div 2)"
      by simp_all
    have bl: "bit_length n = Suc (bit_length (n div 2))"
      using "1.prems" by (subst bit_length.simps) simp
    have blpos: "0 < bit_length (n div 2)"
      using pos by (subst bit_length.simps) simp
    then have "(2::nat) ^ bit_length (n div 2) = 2 * 2 ^ (bit_length (n div 2) - 1)"
      by (cases "bit_length (n div 2)") simp_all
    with ih(1) have "2 ^ bit_length (n div 2) \<le> 2 * (n div 2)"
      by simp
    also have "\<dots> \<le> n" by simp
    finally have lo: "2 ^ (bit_length n - 1) \<le> n"
      by (simp add: bl)
    from ih(2) have "n div 2 + 1 \<le> 2 ^ bit_length (n div 2)" by simp
    then have "2 * (n div 2 + 1) \<le> 2 ^ bit_length n"
      by (simp add: bl)
    moreover have "n < 2 * (n div 2 + 1)" by simp
    ultimately have "n < 2 ^ bit_length n" by linarith
    with lo show ?thesis ..
  qed
qed

lemma exponent_test_iff:
  "b * 2 ^ nat k \<le> a * 2 ^ nat (- k) \<longleftrightarrow> rat_of_nat b * pow2 k \<le> rat_of_nat a"
proof (cases "0 \<le> k")
  case True
  then have "rat_of_nat b * pow2 k = rat_of_nat (b * 2 ^ nat k)"
    by (simp add: pow2_def)
  moreover from True have "a * 2 ^ nat (- k) = a"
    by simp
  ultimately show ?thesis
    by (simp only: of_nat_le_iff)
next
  case False
  then have "rat_of_nat b * pow2 k \<le> rat_of_nat a \<longleftrightarrow>
      rat_of_nat b \<le> rat_of_nat a * 2 ^ nat (- k)"
    by (simp add: pow2_def pos_divide_le_eq)
  also have "\<dots> \<longleftrightarrow> rat_of_nat b \<le> rat_of_nat (a * 2 ^ nat (- k))"
    by simp
  also have "\<dots> \<longleftrightarrow> b \<le> a * 2 ^ nat (- k)"
    by (simp only: of_nat_le_iff)
  finally show ?thesis
    using False by simp
qed

lemma bit_length_rat:
  assumes "0 < n"
  shows "pow2 (int (bit_length n) - 1) \<le> rat_of_nat n" and "rat_of_nat n < pow2 (int (bit_length n))"
proof -
  from bit_length_bounds [OF assms]
  have lo: "2 ^ (bit_length n - 1) \<le> n" and hi: "n < 2 ^ bit_length n"
    by simp_all
  from hi have "0 < bit_length n"
    using assms by (cases "bit_length n") simp_all
  then have "int (bit_length n) - 1 = int (bit_length n - 1)"
    by simp
  then have "pow2 (int (bit_length n) - 1) = pow2 (int (bit_length n - 1))"
    by (rule arg_cong)
  then have "pow2 (int (bit_length n) - 1) = rat_of_nat (2 ^ (bit_length n - 1))"
    by (simp only: pow2_nat of_nat_power of_nat_numeral)
  with lo show "pow2 (int (bit_length n) - 1) \<le> rat_of_nat n"
    by (simp only: of_nat_le_iff)
  have "pow2 (int (bit_length n)) = rat_of_nat (2 ^ bit_length n)"
    by (simp only: pow2_nat of_nat_power of_nat_numeral)
  with hi show "rat_of_nat n < pow2 (int (bit_length n))"
    by (simp only: of_nat_less_iff)
qed

lemma quotient_exponent_bounds:
  assumes "0 < a" and "0 < b"
  shows "rat_of_nat b * pow2 (quotient_exponent a b) \<le> rat_of_nat a"
    and "rat_of_nat a < rat_of_nat b * pow2 (quotient_exponent a b + 1)"
proof -
  let ?la = "int (bit_length a)" and ?lb = "int (bit_length b)"
  let ?k = "?la - ?lb"
  note A = bit_length_rat [OF assms(1)] and B = bit_length_rat [OF assms(2)]
  have bpos: "0 < rat_of_nat b" using assms(2) by simp
  show "rat_of_nat b * pow2 (quotient_exponent a b) \<le> rat_of_nat a"
  proof (cases "b * 2 ^ nat ?k \<le> a * 2 ^ nat (- ?k)")
    case True
    with exponent_test_iff [of b ?k a] have "rat_of_nat b * pow2 ?k \<le> rat_of_nat a"
      by simp
    with True show ?thesis
      by (simp add: quotient_exponent_def Let_def)
  next
    case False
    have "rat_of_nat b * pow2 (?k - 1) \<le> pow2 ?lb * pow2 (?k - 1)"
      using B(2) pow2_pos [of "?k - 1"] by (simp add: mult_right_mono)
    also have "\<dots> = pow2 (?la - 1)"
      by (simp add: pow2_add [symmetric])
    also have "\<dots> \<le> rat_of_nat a"
      by (rule A(1))
    finally show ?thesis
      using False by (simp add: quotient_exponent_def Let_def)
  qed
  show "rat_of_nat a < rat_of_nat b * pow2 (quotient_exponent a b + 1)"
  proof (cases "b * 2 ^ nat ?k \<le> a * 2 ^ nat (- ?k)")
    case True
    have "rat_of_nat a < pow2 ?la"
      by (rule A(2))
    also have "\<dots> = pow2 (?lb - 1) * pow2 (?k + 1)"
      by (simp add: pow2_add [symmetric])
    also have "\<dots> \<le> rat_of_nat b * pow2 (?k + 1)"
      using B(1) pow2_pos [of "?k + 1"] by (simp add: mult_right_mono)
    finally show ?thesis
      using True by (simp add: quotient_exponent_def Let_def)
  next
    case False
    with exponent_test_iff [of b ?k a] have "rat_of_nat a < rat_of_nat b * pow2 ?k"
      by simp
    with False show ?thesis
      by (simp add: quotient_exponent_def Let_def)
  qed
qed

lemma round_half_even_div_error:
  assumes "0 < d"
  shows "\<bar>rat_of_nat (round_half_even_div n d) - rat_of_nat n / rat_of_nat d\<bar> \<le> 1 / 2"
proof -
  let ?q = "n div d" and ?r = "n mod d"
  have dpos: "0 < rat_of_nat d" using assms by simp
  have "rat_of_nat n = rat_of_nat ?q * rat_of_nat d + rat_of_nat ?r"
    by (metis div_mult_mod_eq of_nat_add of_nat_mult)
  then have quot: "rat_of_nat n / rat_of_nat d = rat_of_nat ?q + rat_of_nat ?r / rat_of_nat d"
    using dpos by (simp add: field_simps)
  have rlt: "rat_of_nat ?r < rat_of_nat d"
    using assms by simp
  have rnn: "0 \<le> rat_of_nat ?r / rat_of_nat d"
    by simp
  consider "2 * ?r < d" | "d < 2 * ?r" | "2 * ?r = d"
    by linarith
  then show ?thesis
  proof cases
    case 1
    then have "rat_of_nat (2 * ?r) < rat_of_nat d"
      by (simp only: of_nat_less_iff)
    then have "rat_of_nat ?r / rat_of_nat d < 1 / 2"
      using dpos by (simp add: field_simps)
    with 1 rnn show ?thesis
      by (simp add: round_half_even_div_def Let_def quot)
  next
    case 2
    then have "rat_of_nat d < rat_of_nat (2 * ?r)"
      by (simp only: of_nat_less_iff)
    then have "1 / 2 < rat_of_nat ?r / rat_of_nat d"
      using dpos by (simp add: field_simps)
    moreover have "rat_of_nat ?r / rat_of_nat d < 1"
      using rlt dpos by simp
    ultimately show ?thesis
      using 2 by (simp add: round_half_even_div_def Let_def quot)
  next
    case 3
    then have "rat_of_nat (2 * ?r) = rat_of_nat d"
      by simp
    then have "rat_of_nat ?r / rat_of_nat d = 1 / 2"
      using dpos by (simp add: field_simps)
    with 3 show ?thesis
      by (simp add: round_half_even_div_def Let_def quot)
  qed
qed

lemma round_half_even_div_range:
  "n div d \<le> round_half_even_div n d \<and> round_half_even_div n d \<le> n div d + 1"
  by (simp add: round_half_even_div_def Let_def)

lemma scaled_quotient:
  assumes "0 < b"
  shows "rat_of_nat (a * 2 ^ nat s) / rat_of_nat (b * 2 ^ nat (- s)) =
         rat_of_nat a / rat_of_nat b * pow2 s"
proof (cases "0 \<le> s")
  case True
  then show ?thesis
    by (simp add: pow2_def)
next
  case False
  then show ?thesis
    by (simp add: pow2_def)
qed

lemma float_truediv_nearest:
  assumes "0 < a" and "0 < b"
  shows "pow2 (quotient_exponent a b) \<le> rat_of_nat a / rat_of_nat b \<and>
         rat_of_nat a / rat_of_nat b < pow2 (quotient_exponent a b + 1) \<and>
         (\<exists>m. 2 ^ 52 \<le> m \<and> m \<le> 2 ^ 53 \<and>
              float_truediv a b = rat_of_nat m * pow2 (quotient_exponent a b - 52)) \<and>
         \<bar>float_truediv a b - rat_of_nat a / rat_of_nat b\<bar> \<le> pow2 (quotient_exponent a b - 53)"
proof -
  define e where "e = quotient_exponent a b"
  define s where "s = 52 - e"
  define N where "N = a * 2 ^ nat s"
  define D where "D = b * 2 ^ nat (- s)"
  define m where "m = round_half_even_div N D"
  define x where "x = rat_of_nat a / rat_of_nat b"
  have bpos: "0 < rat_of_nat b" using assms(2) by simp
  have Dpos: "0 < D" using assms(2) by (simp add: D_def)
  have lo: "pow2 e \<le> x"
    using quotient_exponent_bounds(1) [OF assms] bpos
    by (simp add: e_def x_def pos_le_divide_eq mult.commute)
  have hi: "x < pow2 (e + 1)"
    using quotient_exponent_bounds(2) [OF assms] bpos
    by (simp add: e_def x_def pos_divide_less_eq mult.commute)
  have ND: "rat_of_nat N / rat_of_nat D = x * pow2 s"
    unfolding N_def D_def x_def by (rule scaled_quotient [OF assms(2)])
  have val: "float_truediv a b = rat_of_nat m * pow2 (e - 52)"
    using assms(1) by (simp add: float_truediv_def Let_def e_def s_def N_def D_def m_def)
  have one: "pow2 s * pow2 (e - 52) = 1"
  proof -
    have "pow2 s * pow2 (e - 52) = pow2 (s + (e - 52))"
      by (simp only: pow2_add)
    also have "s + (e - 52) = 0"
      by (simp add: s_def)
    finally show ?thesis
      by (simp add: pow2_def)
  qed
  have "pow2 e * pow2 s \<le> x * pow2 s"
    using lo pow2_pos [of s] by (simp add: mult_right_mono)
  moreover have "pow2 e * pow2 s = 2 ^ 52"
  proof -
    have "pow2 e * pow2 s = pow2 (e + s)"
      by (simp only: pow2_add)
    also have "e + s = 52"
      by (simp add: s_def)
    finally show ?thesis
      by (simp add: pow2_def)
  qed
  ultimately have xlo: "2 ^ 52 \<le> rat_of_nat N / rat_of_nat D"
    by (simp add: ND)
  have "x * pow2 s < pow2 (e + 1) * pow2 s"
    using hi pow2_pos [of s] by (simp add: mult_strict_right_mono)
  moreover have "pow2 (e + 1) * pow2 s = 2 ^ 53"
  proof -
    have "pow2 (e + 1) * pow2 s = pow2 (e + 1 + s)"
      by (simp only: pow2_add)
    also have "e + 1 + s = 53"
      by (simp add: s_def)
    finally show ?thesis
      by (simp add: pow2_def)
  qed
  ultimately have xhi: "rat_of_nat N / rat_of_nat D < 2 ^ 53"
    by (simp add: ND)
  from xlo Dpos have "rat_of_nat (2 ^ 52 * D) \<le> rat_of_nat N"
    by (simp add: pos_le_divide_eq)
  then have "2 ^ 52 * D \<le> N"
    by (simp only: of_nat_le_iff)
  then have "2 ^ 52 * D div D \<le> N div D"
    by (rule div_le_mono)
  then have qlo: "2 ^ 52 \<le> N div D"
    using Dpos by simp
  from xhi Dpos have "rat_of_nat N < rat_of_nat (2 ^ 53 * D)"
    by (simp add: pos_divide_less_eq)
  then have "N < 2 ^ 53 * D"
    by (simp only: of_nat_less_iff)
  then have qhi: "N div D < 2 ^ 53"
    using Dpos by (simp add: less_mult_imp_div_less)
  from round_half_even_div_range [of N D] qlo qhi
  have mrange: "2 ^ 52 \<le> m" "m \<le> 2 ^ 53"
    by (simp_all add: m_def)
  have "\<bar>float_truediv a b - x\<bar> = \<bar>rat_of_nat m * pow2 (e - 52) - x * (pow2 s * pow2 (e - 52))\<bar>"
    by (simp add: val one)
  also have "\<dots> = \<bar>(rat_of_nat m - rat_of_nat N / rat_of_nat D) * pow2 (e - 52)\<bar>"
    by (simp add: ND algebra_simps)
  also have "\<dots> = \<bar>rat_of_nat m - rat_of_nat N / rat_of_nat D\<bar> * pow2 (e - 52)"
    using pow2_pos [of "e - 52"] by (simp add: abs_mult)
  also have "\<dots> \<le> 1 / 2 * pow2 (e - 52)"
    using round_half_even_div_error [OF Dpos, of N] pow2_pos [of "e - 52"]
    unfolding m_def by (intro mult_right_mono) simp_all
  also have "\<dots> = pow2 (e - 53)"
  proof -
    have "e - 52 = 1 + (e - 53)"
      by simp
    then have "pow2 (e - 52) = pow2 (1 + (e - 53))"
      by (rule arg_cong)
    also have "\<dots> = pow2 1 * pow2 (e - 53)"
      by (simp only: pow2_add)
    also have "pow2 1 = 2"
      by (simp add: pow2_def)
    finally show ?thesis
      by simp
  qed
  finally have err: "\<bar>float_truediv a b - x\<bar> \<le> pow2 (e - 53)" .
  from lo hi mrange val err show ?thesis
    unfolding e_def x_def by blast
qed

lemma pow2_mono: "x \<le> y \<Longrightarrow> pow2 x \<le> pow2 y"
  by (simp add: pow2_powi power_int_increasing)

lemma price_exponent_range:
  assumes "0 < n" and "n < 2 ^ 32"
  shows "- 17 \<le> quotient_exponent n 100000 \<and> quotient_exponent n 100000 \<le> 15"
proof -
  let ?e = "quotient_exponent n 100000"
  have pos: "(0::nat) < 100000" by simp
  note b = float_truediv_nearest [OF assms(1) pos]
  have n1: "1 \<le> rat_of_nat n" using assms(1) by simp
  have n2: "rat_of_nat n < 2 ^ 32"
    using assms(2) by (metis of_nat_less_iff of_nat_numeral of_nat_power)
  have "?e \<le> 15"
  proof (rule ccontr)
    assume "\<not> ?e \<le> 15"
    then have "pow2 16 \<le> pow2 ?e"
      by (intro pow2_mono) simp
    also from b have "\<dots> \<le> rat_of_nat n / rat_of_nat 100000"
      by blast
    finally show False
      using n2 by (simp add: pow2_def)
  qed
  moreover have "- 17 \<le> ?e"
  proof (rule ccontr)
    assume "\<not> - 17 \<le> ?e"
    then have "pow2 (?e + 1) \<le> pow2 (- 17)"
      by (intro pow2_mono) simp
    moreover from b have "rat_of_nat n / rat_of_nat 100000 < pow2 (?e + 1)"
      by blast
    ultimately have "rat_of_nat n / rat_of_nat 100000 < pow2 (- 17)"
      by simp
    then show False
      using n1 by (simp add: pow2_def)
  qed
  ultimately show ?thesis
    by simp
qed

section \<open>The parser loop\<close>

lemma struct_unpack_record:
  assumes "length c = 20"
  shows "struct_unpack_IIIff c =
     Inr (word_of_nat (field_u32 c 0), word_of_nat (field_u32 c 4), word_of_nat (field_u32 c 8),
          word_of_nat (field_u32 c 12), word_of_nat (field_u32 c 16))"
proof -
  have "be_word (slice c 0 4) = word_of_nat (field_u32 c 0)"
    using be_nat_field [OF assms, of 0] by (simp add: be_word_def)
  moreover have "be_word (slice c 4 8) = word_of_nat (field_u32 c 4)"
    using be_nat_field [OF assms, of 4] by (simp add: be_word_def)
  moreover have "be_word (slice c 8 12) = word_of_nat (field_u32 c 8)"
    using be_nat_field [OF assms, of 8] by (simp add: be_word_def)
  moreover have "be_word (slice c 12 16) = word_of_nat (field_u32 c 12)"
    using be_nat_field [OF assms, of 12] by (simp add: be_word_def)
  moreover have "be_word (slice c 16 20) = word_of_nat (field_u32 c 16)"
    using be_nat_field [OF assms, of 16] by (simp add: be_word_def)
  ultimately show ?thesis
    using assms by (simp add: struct_unpack_IIIff_def)
qed

lemma unat_field_word: "unat (word_of_nat (field_u32 c k) :: 32 word) = field_u32 c k"
  using field_u32_less [of c k] by (simp add: unat_of_nat)

lemma uint_field_word: "uint (word_of_nat (field_u32 c k) :: 32 word) = int (field_u32 c k)"
  using unat_field_word [of c k] by (metis uint_nat)

lemma parse_step_record:
  assumes "i < length data div 20"
  shows "parse_step data base i acc =
     (case datetime_add_ms base (int (field_u32 (record_at data i) 0)) of
        Inl e \<Rightarrow> Inl e
      | Inr ts \<Rightarrow> Inr (acc @ [record_tick base (record_at data i)\<lparr>timestamp := ts\<rparr>]))"
proof -
  let ?c = "record_at data i"
  have unpack: "struct_unpack_IIIff (slice data (i * 20) ((i + 1) * 20)) =
      Inr (word_of_nat (field_u32 ?c 0), word_of_nat (field_u32 ?c 4), word_of_nat (field_u32 ?c 8),
           word_of_nat (field_u32 ?c 12), word_of_nat (field_u32 ?c 16))"
    unfolding slice_chunk by (rule struct_unpack_record [OF length_record_at [OF assms]])
  show ?thesis
    unfolding parse_step_def Let_def unpack
    by (simp add: unat_field_word uint_field_word record_tick_def split: sum.splits)
qed

lemma parse_loop_records:
  assumes "\<forall>i \<in> set js. i < length data div 20"
  shows "parse_loop data base js acc =
     (if \<forall>i \<in> set js. base + int (field_u32 (record_at data i) 0) < END_OF_TIME \<and>
                          0 \<le> base + int (field_u32 (record_at data i) 0)
      then Inr (acc @ map (\<lambda>i. record_tick base (record_at data i)) js)
      else Inl OverflowError)"
  using assms
proof (induction js arbitrary: acc)
  case Nil
  then show ?case by simp
next
  case (Cons j js)
  then have j: "j < length data div 20" and js: "\<forall>i \<in> set js. i < length data div 20"
    by simp_all
  show ?case
  proof (cases "datetime_add_ms base (int (field_u32 (record_at data j) 0))")
    case (Inl e)
    then show ?thesis
      by (auto simp: parse_step_record [OF j] datetime_add_ms_def Let_def END_OF_TIME_def
          MS_PER_DAY_def MAXORDINAL_def split: if_splits)
  next
    case (Inr ts)
    then have ts: "ts = base + int (field_u32 (record_at data j) 0)"
      and ok: "base + int (field_u32 (record_at data j) 0) < END_OF_TIME"
              "0 \<le> base + int (field_u32 (record_at data j) 0)"
      by (auto simp: datetime_add_ms_def Let_def END_OF_TIME_def
          MS_PER_DAY_def MAXORDINAL_def split: if_splits)
    have "record_tick base (record_at data j)\<lparr>timestamp := ts\<rparr> = record_tick base (record_at data j)"
      by (simp add: ts record_tick_def)
    then show ?thesis
      using Inr ok Cons.IH [OF js] by (simp add: parse_step_record [OF j])
  qed
qed

section \<open>The hour's start and the parser's result\<close>

lemma days_before_year_nonneg: "1 \<le> y \<Longrightarrow> 0 \<le> days_before_year y"
proof -
  assume y: "1 \<le> y"
  have "(y - 1) div 100 \<le> (y - 1) div 4"
    using y by (intro zdiv_mono2) simp_all
  moreover have "0 \<le> (y - 1) div 400" "0 \<le> (y - 1) * 365"
    using y by simp_all
  ultimately show ?thesis
    by (simp add: days_before_year_def)
qed

lemma days_before_month_nonneg: "1 \<le> m \<Longrightarrow> m \<le> 12 \<Longrightarrow> 0 \<le> days_before_month y m"
proof -
  assume "1 \<le> m" "m \<le> 12"
  then have "m = 1 \<or> m = 2 \<or> m = 3 \<or> m = 4 \<or> m = 5 \<or> m = 6 \<or> m = 7 \<or> m = 8 \<or> m = 9 \<or>
      m = 10 \<or> m = 11 \<or> m = 12"
    by arith
  then show ?thesis
    by (auto simp: days_before_month_def)
qed

lemma ymd2ord_pos: "valid_date dt \<Longrightarrow> 1 \<le> ymd2ord (year dt) (month dt) (day dt)"
  using days_before_year_nonneg [of "year dt"] days_before_month_nonneg [of "month dt" "year dt"]
  by (simp add: valid_date_def ymd2ord_def)

lemma hour_start_nonneg: "valid_date dt \<Longrightarrow> 0 \<le> hour \<Longrightarrow> 0 \<le> hour_start dt hour"
  using ymd2ord_pos [of dt] by (simp add: hour_start_def)

lemma datetime_new_hour_start:
  "valid_date dt \<Longrightarrow> 0 \<le> hour \<Longrightarrow> hour \<le> 23 \<Longrightarrow>
   datetime_new (year dt) (month dt) (day dt) hour = Inr (hour_start dt hour)"
  by (simp add: datetime_new_def valid_date_def hour_start_def)

lemma parse_bi5_records:
  assumes "valid_date dt" "0 \<le> hour" "hour \<le> 23"
  shows "parse_bi5 data dt hour =
     (if \<forall>i < length data div 20.
           hour_start dt hour + int (field_u32 (record_at data i) 0) < END_OF_TIME
      then Inr (map (\<lambda>i. record_tick (hour_start dt hour) (record_at data i))
                  [0..<length data div 20])
      else Inl OverflowError)"
proof (cases "data = []")
  case True
  then show ?thesis by (simp add: parse_bi5_def)
next
  case False
  have nonneg: "0 \<le> hour_start dt hour + int (field_u32 (record_at data i) 0)" for i
    using hour_start_nonneg [OF assms(1,2)] by simp
  have "parse_bi5 data dt hour = parse_loop data (hour_start dt hour) [0..<length data div 20] []"
    using False by (simp add: parse_bi5_def datetime_new_hour_start [OF assms])
  also have "\<dots> = (if \<forall>i \<in> set [0..<length data div 20].
           hour_start dt hour + int (field_u32 (record_at data i) 0) < END_OF_TIME \<and>
           0 \<le> hour_start dt hour + int (field_u32 (record_at data i) 0)
      then Inr ([] @ map (\<lambda>i. record_tick (hour_start dt hour) (record_at data i))
                  [0..<length data div 20])
      else Inl OverflowError)"
    by (rule parse_loop_records) simp
  finally show ?thesis
    using nonneg by simp
qed

section \<open>Evaluation of the example\<close>

lemmas float_eval =
  float_truediv_def quotient_exponent_def bit_length.simps round_half_even_div_def pow2_def Let_def

lemmas calendar_eval =
  valid_date_def days_in_month_def is_leap_def ymd2ord_def days_before_year_def
  days_before_month_def hour_start_def END_OF_TIME_def MAXORDINAL_def MS_PER_DAY_def

lemma valid_example_date: "valid_date example_date"
  by (simp add: example_date_def calendar_eval)

lemma hour_start_example: "hour_start example_date 3 = 63840884400000"
  by (simp add: example_date_def calendar_eval)

lemma example_in_range: "hour_in_range example_date 3"
  by (simp add: hour_in_range_def hour_start_example) (simp add: calendar_eval)

lemma record_at_example: "record_at (example_record @ [1, 2, 3]) 0 = example_record"
  by (simp add: record_at_def example_record_def)

lemma record_tick_example: "record_tick 63840884400000 example_record = example_tick"
  by (simp add: record_tick_def example_record_def example_tick_def field_u32_def float_eval)

lemma float_truediv_nonneg: "0 \<le> float_truediv a b"
  by (simp add: float_truediv_def pow2_def Let_def)



section \<open>The parser on hours whose offsets all fit\<close>

lemma offsets_in_range:
  assumes "hour_in_range dt hour"
  shows "hour_start dt hour + int (field_u32 c 0) < END_OF_TIME"
proof -
  have "int (field_u32 c 0) < 2 ^ 32"
    using field_u32_less [of c 0] by (metis of_nat_less_iff of_nat_numeral of_nat_power)
  then show ?thesis
    using assms by (simp add: hour_in_range_def)
qed

lemma hour_in_range_fit: "hour_in_range dt hour \<Longrightarrow> timestamps_fit data dt hour"
  by (simp add: timestamps_fit_def offsets_in_range)

lemma parse_bi5_fit:
  assumes "valid_date dt" and "0 \<le> hour" and "hour \<le> 23"
  shows "parse_bi5 data dt hour =
     (if timestamps_fit data dt hour
      then Inr (map (\<lambda>i. record_tick (hour_start dt hour) (record_at data i))
                  [0..<length data div 20])
      else Inl OverflowError)"
  unfolding timestamps_fit_def by (rule parse_bi5_records [OF assms])

lemma parse_bi5_in_range:
  assumes "valid_date dt" and "0 \<le> hour" and "hour \<le> 23" and "hour_in_range dt hour"
  shows "parse_bi5 data dt hour =
     Inr (map (\<lambda>i. record_tick (hour_start dt hour) (record_at data i)) [0..<length data div 20])"
  by (simp add: parse_bi5_fit [OF assms(1-3)] hour_in_range_fit [OF assms(4)])

lemma datetime_new_valid:
  assumes "datetime_new (year dt) (month dt) (day dt) hour = Inr base"
  shows "valid_date dt \<and> 0 \<le> hour \<and> hour \<le> 23"
  using assms by (simp add: datetime_new_def valid_date_def split: if_splits)

lemma parse_bi5_ticks_valid:
  assumes "parse_bi5 data dt hour = Inr ticks" and "ticks \<noteq> []"
  shows "valid_date dt \<and> 0 \<le> hour \<and> hour \<le> 23"
proof (cases "datetime_new (year dt) (month dt) (day dt) hour")
  case (Inl e)
  then show ?thesis
    using assms by (simp add: parse_bi5_def split: if_splits)
next
  case (Inr base)
  then show ?thesis
    by (rule datetime_new_valid)
qed

section \<open>Decimal fields of fixed width\<close>

lemma digit_char_0: "digit_char 0 = CHR ''0''"
  by (simp add: digit_char_def)

lemma decimal_1: "n < 10 \<Longrightarrow> decimal n = [digit_char n]"
  by (simp add: decimal.simps)

lemma decimal_2: "10 \<le> n \<Longrightarrow> n < 100 \<Longrightarrow> decimal n = [digit_char (n div 10), digit_char (n mod 10)]"
  by (subst decimal.simps) (simp add: decimal_1)

lemma decimal_3:
  "100 \<le> n \<Longrightarrow> n < 1000 \<Longrightarrow>
   decimal n = [digit_char (n div 100), digit_char (n div 10 mod 10), digit_char (n mod 10)]"
  by (subst decimal.simps) (simp add: decimal_2 div_mult2_eq [symmetric])

lemma decimal_4:
  "1000 \<le> n \<Longrightarrow> n < 10000 \<Longrightarrow>
   decimal n = [digit_char (n div 1000), digit_char (n div 100 mod 10), digit_char (n div 10 mod 10),
                digit_char (n mod 10)]"
  by (subst decimal.simps) (simp add: decimal_3 div_mult2_eq [symmetric])

lemma format_0d_2:
  assumes "n < 100" shows "format_0d 2 (int n) = two_digits n"
proof (cases "n < 10")
  case True
  then show ?thesis
    by (simp add: format_0d_def decimal_1 two_digits_def digit_char_0)
next
  case False
  with assms show ?thesis
    by (simp add: format_0d_def decimal_2 two_digits_def)
qed

lemma format_0d_4:
  assumes "n < 10000" shows "format_0d 4 (int n) = four_digits n"
proof -
  consider "n < 10" | "10 \<le> n" "n < 100" | "100 \<le> n" "n < 1000" | "1000 \<le> n"
    by linarith
  then show ?thesis
  proof cases
    case 1
    then show ?thesis
      by (simp add: format_0d_def decimal_1 four_digits_def digit_char_0 numeral_3_eq_3)
  next
    case 2
    then show ?thesis
      by (simp add: format_0d_def decimal_2 four_digits_def digit_char_0 numeral_2_eq_2)
  next
    case 3
    then show ?thesis
      by (simp add: format_0d_def decimal_3 four_digits_def digit_char_0)
  next
    case 4
    with assms show ?thesis
      by (simp add: format_0d_def decimal_4 four_digits_def)
  qed
qed

lemma days_in_month_le: "days_in_month y m \<le> 31"
  by (simp add: days_in_month_def)

section \<open>The day orchestrator as a concatenation of hours\<close>

lemma hours_upto: "[0..23] = [0, 1, 2, 3, 4, 5, 6, 7, 8, 9, 10, 11, 12, 13, 14, 15, 16, 17, 18, 19, 20, 21, 22, 23 :: int]"
  by (simp add: upto_rec1)

lemma hour_body_eq:
  "hour_body env self dt st hour =
     (if hour_records env self dt hour \<noteq> [] then fst st @ [hour_records env self dt hour] else fst st,
      snd st @ [get_tick_url self dt hour])"
  by (simp add: hour_body_def hour_records_def Let_def split: option.splits sum.splits)

lemma foldl_hour_body:
  "foldl (hour_body env self dt) (acc, reqs) hs =
     (acc @ filter (\<lambda>df. df \<noteq> []) (map (hour_records env self dt) hs),
      reqs @ map (get_tick_url self dt) hs)"
proof (induction hs arbitrary: acc reqs)
  case Nil
  then show ?case by simp
next
  case (Cons h hs)
  show ?case
    unfolding foldl_Cons hour_body_eq [of env self dt "(acc, reqs)" h]
    by (simp add: Cons.IH)
qed

lemma concat_filter_nonempty: "concat (filter (\<lambda>xs. xs \<noteq> []) xss) = concat xss"
  by (induction xss) simp_all

lemma filter_nonempty_Nil: "filter (\<lambda>xs. xs \<noteq> []) xss = [] \<longleftrightarrow> concat xss = []"
  by (induction xss) simp_all

lemma download_day_eq:
  "download_day env self dt = (Inr (day_records env self dt), day_urls self dt)"
proof -
  let ?frames = "filter (\<lambda>df. df \<noteq> []) (map (hour_records env self dt) [0..23])"
  have st: "foldl (hour_body env self dt) ([], []) [0..23] = (?frames, day_urls self dt)"
    by (simp add: foldl_hour_body day_urls_def)
  show ?thesis
  proof (cases "?frames = []")
    case True
    then have "day_records env self dt = []"
      unfolding day_records_def by (simp only: filter_nonempty_Nil)
    with True show ?thesis
      unfolding download_day_def st Let_def by simp
  next
    case False
    have "concat ?frames = day_records env self dt"
      unfolding day_records_def by (rule concat_filter_nonempty)
    with False show ?thesis
      unfolding download_day_def st Let_def by (simp add: pd_concat_def)
  qed
qed

section \<open>Evaluation of the example world\<close>

lemma example_url: "get_tick_url eurusd example_date h =
  ''https://datafeed.dukascopy.com/datafeed/EURUSD/2024/00/15/'' @ format_0d 2 h @ ''h_ticks.bi5''"
  by (simp add: get_tick_url_def BASE_URL_def format_0d_def [of 4] format_0d_def [of 2 0] format_0d_def [of 2 15] decimal.simps digit_char_def eurusd_def
  example_date_def)

lemma example_hours_in_range: "0 \<le> h \<Longrightarrow> h \<le> 23 \<Longrightarrow> hour_in_range example_date h"
  by (simp add: hour_in_range_def example_date_def calendar_eval)

lemma example_hour_2: "length (hour_records example_env eurusd example_date 2) = 100"
proof -
  have "hour_records example_env eurusd example_date 2 =
     (case parse_bi5 (replicate 2000 0) example_date 2 of Inl e \<Rightarrow> [] | Inr df \<Rightarrow> df)"
    by (simp add: hour_records_def download_file_def decompress_bi5_def example_env_def)
  then show ?thesis
    using valid_example_date example_hours_in_range [of 2]
    by (simp add: parse_bi5_in_range)
qed

lemma example_hour_5: "length (hour_records example_env eurusd example_date 5) = 50"
proof -
  have "get_tick_url eurusd example_date 5 \<noteq> get_tick_url eurusd example_date 2"
    by (simp add: example_url format_0d_def decimal.simps digit_char_def)
  then have "hour_records example_env eurusd example_date 5 =
     (case parse_bi5 (replicate 1000 0) example_date 5 of Inl e \<Rightarrow> [] | Inr df \<Rightarrow> df)"
    by (simp add: hour_records_def download_file_def decompress_bi5_def example_env_def)
  then show ?thesis
    using valid_example_date example_hours_in_range [of 5]
    by (simp add: parse_bi5_in_range)
qed

lemma example_other_hours:
  assumes "h \<in> set [0..23]" and "h \<noteq> 2" and "h \<noteq> 5"
  shows "hour_records example_env eurusd example_date h = []"
proof -
  from assms(1) have "h \<in> {0, 1, 2, 3, 4, 5, 6, 7, 8, 9, 10, 11, 12, 13, 14, 15, 16, 17, 18, 19, 20, 21, 22, 23}"
    unfolding hours_upto by simp
  with assms(2,3) consider "h = 0" | "h = 1" | "h = 3" | "h = 4" | "h = 6" | "h = 7" | "h = 8" | "h = 9" | "h = 10"
    | "h = 11" | "h = 12" | "h = 13" | "h = 14" | "h = 15" | "h = 16" | "h = 17" | "h = 18"
    | "h = 19" | "h = 20" | "h = 21" | "h = 22" | "h = 23"
    by auto
  then show ?thesis
    by cases
      (simp_all add: hour_records_def download_file_def decompress_bi5_def example_env_def
        example_url format_0d_def decimal.simps digit_char_def)
qed

section \<open>The range orchestrator as sorting the records of its dates\<close>

lemma range_loop_eq:
  "range_loop env self dts acc reqs =
     (Inr (acc @ filter (\<lambda>df. df \<noteq> []) (map (day_records env self) dts)),
      reqs @ concat (map (day_urls self) dts))"
proof (induction dts arbitrary: acc reqs)
  case Nil
  then show ?case by simp
next
  case (Cons dt dts)
  show ?case
    by (simp add: download_day_eq Cons.IH)
qed

lemma download_range_eq:
  assumes "validate_date_range env start_date end_date = Inr (start_dt, end_dt)"
    and "generate_date_range env start_dt end_dt = Inr dates"
  shows "download_range env self start_date end_date save =
     (if range_records env self dates = []
      then (Inr [], \<lparr>requests = range_urls self dates, files = []\<rparr>)
      else if save
      then (case fs_write env (csv_path self start_date end_date) of
              Some e \<Rightarrow> (Inl e, \<lparr>requests = range_urls self dates, files = []\<rparr>)
            | None \<Rightarrow>
                (Inr (sort_rows env (range_records env self dates)),
                 \<lparr>requests = range_urls self dates,
                  files = [\<lparr>path = csv_path self start_date end_date, header = columns,
                            rows = sort_rows env (range_records env self dates)\<rparr>]\<rparr>))
      else (Inr (sort_rows env (range_records env self dates)),
            \<lparr>requests = range_urls self dates, files = []\<rparr>))"
proof -
  let ?frames = "filter (\<lambda>df. df \<noteq> []) (map (day_records env self) dates)"
  have loop: "range_loop env self dates [] [] = (Inr ?frames, range_urls self dates)"
    by (simp add: range_loop_eq range_urls_def)
  have empty: "?frames = [] \<longleftrightarrow> range_records env self dates = []"
    unfolding range_records_def by (rule filter_nonempty_Nil)
  have cat: "concat ?frames = range_records env self dates"
    unfolding range_records_def by (rule concat_filter_nonempty)
  show ?thesis
  proof (cases "range_records env self dates = []")
    case True
    with empty have "?frames = []" by simp
    with True show ?thesis
      by (simp add: download_range_def assms loop)
  next
    case False
    with empty have ne: "?frames \<noteq> []" by simp
    then have "pd_concat ?frames = Inr (range_records env self dates)"
      by (simp add: pd_concat_def cat)
    moreover have "sort_values env (range_records env self dates) =
        Inr (sort_rows env (range_records env self dates))"
      using False by (simp add: sort_values_def)
    ultimately show ?thesis
      using False ne
      by (simp add: download_range_def assms loop to_csv_def csv_path_def Let_def
          split: option.splits)
  qed
qed

lemma download_range_invalid:
  assumes "validate_date_range env start_date end_date = Inl e"
  shows "download_range env self start_date end_date save = (Inl e, \<lparr>requests = [], files = []\<rparr>)"
  by (simp add: download_range_def assms)

lemma download_range_no_dates:
  assumes "validate_date_range env start_date end_date = Inr (start_dt, end_dt)"
    and "generate_date_range env start_dt end_dt = Inl e"
  shows "download_range env self start_date end_date save = (Inl e, \<lparr>requests = [], files = []\<rparr>)"
  by (simp add: download_range_def assms)

lemma sorts_by_timestamp_Nil: "sorts_by_timestamp srt \<Longrightarrow> srt df = [] \<longleftrightarrow> df = []"
  by (metis sorts_by_timestamp_def mset_zero_iff)

lemma sorts_by_timestamp_stable: "sorts_by_timestamp (sort_key timestamp)"
  by (simp add: sorts_by_timestamp_def)

text \<open>
  Whatever order the library gives to rows with equal timestamps, a dataset that
  \<^verbatim>\<open>download_range\<close> returns has the rows of the days' frames, each once, in
  non-decreasing order of timestamp.
\<close>

lemma download_range_sorted:
  assumes "sorts_by_timestamp (sort_rows env)"
    and "validate_date_range env start_date end_date = Inr (start_dt, end_dt)"
    and "generate_date_range env start_dt end_dt = Inr dates"
    and "fst (download_range env self start_date end_date save) = Inr df"
  shows "sorted (map timestamp df) \<and> mset df = mset (range_records env self dates)"
proof (cases "range_records env self dates = []")
  case True
  with assms(4) show ?thesis
    by (simp add: download_range_eq [OF assms(2,3)])
next
  case False
  with assms(4) have "df = sort_rows env (range_records env self dates)"
    by (auto simp: download_range_eq [OF assms(2,3)] split: if_splits option.splits)
  with assms(1) show ?thesis
    by (simp add: sorts_by_timestamp_def)
qed

text \<open>
  Were the rows sorted by a stable algorithm (\<^verbatim>\<open>kind='stable'\<close>), the dataset would be
  the stable sort of the concatenation, and rows with equal timestamps would keep their
  order of arrival.
\<close>

lemma download_range_stable_kind:
  assumes "sort_rows env = sort_key timestamp"
    and "validate_date_range env start_date end_date = Inr (start_dt, end_dt)"
    and "generate_date_range env start_dt end_dt = Inr dates"
    and "fst (download_range env self start_date end_date save) = Inr df"
  shows "df = sort_key timestamp (range_records env self dates)"
    and "filter (\<lambda>t. timestamp t = k) df =
         filter (\<lambda>t. timestamp t = k) (range_records env self dates)"
proof -
  show df: "df = sort_key timestamp (range_records env self dates)"
  proof (cases "range_records env self dates = []")
    case True
    with assms(4) show ?thesis
      by (simp add: download_range_eq [OF assms(2,3)])
  next
    case False
    with assms(4) show ?thesis
      by (auto simp: download_range_eq [OF assms(2,3)] assms(1) split: if_splits option.splits)
  qed
  show "filter (\<lambda>t. timestamp t = k) df =
      filter (\<lambda>t. timestamp t = k) (range_records env self dates)"
    unfolding df by (rule sort_key_stable)
qed

section \<open>Evaluation of the other worlds\<close>

lemma dead_hours: "hour_records dead_env self dt h = []"
  by (simp add: hour_records_def download_file_def dead_env_def)

lemma dead_days: "day_records dead_env self dt = []"
  by (simp add: day_records_def dead_hours)

lemma example_day:
  "day_records example_env eurusd example_date =
     hour_records example_env eurusd example_date 2 @ hour_records example_env eurusd example_date 5"
  unfolding day_records_def hours_upto
  by (simp add: example_other_hours hours_upto)

lemma example_parse: "parse_bi5 example_record example_date 3 = Inr [example_tick]"
proof -
  have "(0::int) \<le> 3" "(3::int) \<le> 23"
    by simp_all
  note p = parse_bi5_in_range [OF valid_example_date this example_in_range, of example_record]
  have n: "length example_record div 20 = 1"
    by (simp add: example_record_def)
  have r: "record_at example_record 0 = example_record"
    by (simp add: record_at_def example_record_def)
  show ?thesis
    unfolding p n by (simp add: r hour_start_example record_tick_example)
qed

lemma locked_hour_3: "hour_records locked_env eurusd example_date 3 = [example_tick]"
  by (simp add: hour_records_def download_file_def decompress_bi5_def locked_env_def example_parse)

lemma locked_other_hours:
  assumes "h \<in> set [0..23]" and "h \<noteq> 3"
  shows "hour_records locked_env eurusd example_date h = []"
proof -
  from assms(1) have "h \<in> {0, 1, 2, 3, 4, 5, 6, 7, 8, 9, 10, 11, 12, 13, 14, 15, 16, 17, 18, 19, 20, 21, 22, 23}"
    unfolding hours_upto by simp
  with assms(2) consider "h = 0" | "h = 1" | "h = 2" | "h = 4" | "h = 5" | "h = 6" | "h = 7" | "h = 8" | "h = 9" | "h = 10"
    | "h = 11" | "h = 12" | "h = 13" | "h = 14" | "h = 15" | "h = 16" | "h = 17" | "h = 18"
    | "h = 19" | "h = 20" | "h = 21" | "h = 22" | "h = 23"
    by auto
  then show ?thesis
    by cases
      (simp_all add: hour_records_def download_file_def decompress_bi5_def locked_env_def
        example_url format_0d_def decimal.simps digit_char_def)
qed

lemma locked_day: "day_records locked_env eurusd example_date = [example_tick]"
  unfolding day_records_def hours_upto
  by (simp add: locked_hour_3 locked_other_hours hours_upto)

lemma late_parse: "parse_bi5 late_record last_date 23 = Inl OverflowError"
  by (simp add: parse_bi5_def datetime_new_def parse_step_def struct_unpack_IIIff_def slice_def
      be_word_def be_nat_def datetime_add_ms_def late_record_def last_date_def calendar_eval)

lemma valid_last_date: "valid_date last_date"
  by (simp add: last_date_def calendar_eval)

lemma hour_start_last: "hour_start last_date 23 = 315537894000000"
  by (simp add: last_date_def calendar_eval)

lemma last_hour_not_in_range: "\<not> hour_in_range last_date 23"
  by (simp add: hour_in_range_def hour_start_last END_OF_TIME_def MAXORDINAL_def MS_PER_DAY_def)

lemma last_hour_fit: "timestamps_fit example_record last_date 23"
proof -
  have "length example_record div 20 = 1"
    by (simp add: example_record_def)
  moreover have "record_at example_record 0 = example_record"
    by (simp add: record_at_def example_record_def)
  moreover have "field_u32 example_record 0 = 5"
    by (simp add: field_u32_def example_record_def)
  ultimately show ?thesis
    by (simp add: timestamps_fit_def hour_start_last END_OF_TIME_def MAXORDINAL_def MS_PER_DAY_def)
qed

lemma last_hour_tick: "record_tick 315537894000000 example_record = last_hour_tick"
  by (simp add: record_tick_def example_record_def last_hour_tick_def example_tick_def field_u32_def
      float_eval)

lemma last_hour_no_fit: "\<not> timestamps_fit (example_record @ late_record) last_date 23"
proof
  assume fit: "timestamps_fit (example_record @ late_record) last_date 23"
  have "length (example_record @ late_record) div 20 = 2"
    by (simp add: example_record_def late_record_def)
  with fit have "hour_start last_date 23 +
      int (field_u32 (record_at (example_record @ late_record) 1) 0) < END_OF_TIME"
    by (simp add: timestamps_fit_def)
  moreover have "record_at (example_record @ late_record) 1 = late_record"
    by (simp add: record_at_def example_record_def late_record_def)
  moreover have "field_u32 late_record 0 = 3600000"
    by (simp add: field_u32_def late_record_def)
  ultimately show False
    by (simp add: hour_start_last END_OF_TIME_def MAXORDINAL_def MS_PER_DAY_def)
qed

lemma late_hour_23: "hour_records late_env self last_date 23 = []"
  by (simp add: hour_records_def download_file_def decompress_bi5_def late_env_def late_parse)

lemma example_validate:
  "validate_date_range example_env ''2024-01-15'' ''2024-01-15'' = Inr (example_date, example_date)"
  by (simp add: example_env_def)

lemma example_generate: "generate_date_range example_env example_date example_date = Inr [example_date]"
  by (simp add: example_env_def)

lemma example_range:
  "range_records example_env eurusd [example_date] =
     hour_records example_env eurusd example_date 2 @ hour_records example_env eurusd example_date 5"
  by (simp add: range_records_def example_day)

lemma example_sort: "sorts_by_timestamp (sort_rows example_env)"
  by (simp add: example_env_def sorts_by_timestamp_stable)

lemma example_fs: "fs_write example_env p = None"
  by (simp add: example_env_def)

lemma dead_fs: "fs_write dead_env p = None"
  by (simp add: dead_env_def)

lemma late_fs: "fs_write late_env p = None"
  by (simp add: late_env_def)

section \<open>The record parser: claims C3, C4, C9 and C10\<close>

text \<open>
  Claim C3, as amended. For a valid date and an hour in \<open>0..23\<close>, and a buffer in which
  the timestamp of every complete record, the hour's start plus its offset, is an
  instant a \<^verbatim>\<open>datetime\<close> can hold (\<open>timestamps_fit\<close>), the parser returns one tick for
  every complete 20-byte record of the buffer, and the tick of record \<open>i\<close> is read from
  its bytes in big-endian order: the timestamp is the hour's start plus the unsigned
  32-bit integer in bytes 0-3 (in milliseconds), ask and bid are the unsigned 32-bit
  integers in bytes 4-7 and 8-11 divided by \<open>100000.0\<close> in binary64, and the two volumes
  are the binary32 data in bytes 12-15 and 16-19, unchanged.
\<close>

theorem parse_bi5_decodes_record:
  assumes "valid_date dt" and "0 \<le> hour" and "hour \<le> 23"
    and "timestamps_fit data dt hour" and "i < length data div 20"
  shows "\<exists>ticks. parse_bi5 data dt hour = Inr ticks \<and> length ticks = length data div 20 \<and>
           ticks ! i =
             \<lparr>timestamp = hour_start dt hour + int (field_u32 (record_at data i) 0),
              ask = float_truediv (field_u32 (record_at data i) 4) 100000,
              bid = float_truediv (field_u32 (record_at data i) 8) 100000,
              ask_volume = word_of_nat (field_u32 (record_at data i) 12),
              bid_volume = word_of_nat (field_u32 (record_at data i) 16)\<rparr>"
  using assms(4,5) by (simp add: parse_bi5_fit [OF assms(1-3)] record_tick_def)

text \<open>
  The theorem at the last hour a \<^verbatim>\<open>datetime\<close> can hold, 23:00 of 9999-12-31, with the
  example record, whose offset is 5 ms.
\<close>

theorem parse_bi5_decodes_record_witness:
  "valid_date last_date \<and> \<not> hour_in_range last_date 23 \<and>
   timestamps_fit example_record last_date 23 \<and>
   parse_bi5 example_record last_date 23 = Inr [last_hour_tick]"
proof -
  have len: "(0::nat) < length example_record div 20"
    by (simp add: example_record_def)
  have "(23::int) \<le> 23" "(0::int) \<le> 23"
    by simp_all
  from parse_bi5_decodes_record [OF valid_last_date this(2,1) last_hour_fit len]
  obtain ticks where p: "parse_bi5 example_record last_date 23 = Inr ticks"
    and l: "length ticks = length example_record div 20"
    and t: "ticks ! 0 = record_tick (hour_start last_date 23) (record_at example_record 0)"
    by (auto simp: record_tick_def)
  have r: "record_at example_record 0 = example_record"
    by (simp add: record_at_def example_record_def)
  from l have "length ticks = 1"
    by (simp add: example_record_def)
  then have "ticks = [ticks ! 0]"
    by (cases ticks) simp_all
  then have "ticks = [last_hour_tick]"
    by (simp add: t r hour_start_last last_hour_tick)
  then show ?thesis
    using p valid_last_date last_hour_not_in_range last_hour_fit by simp
qed

text \<open>
  The claim as stated fails in that hour on a buffer of two complete records, the
  example record followed by one whose offset is an hour: the addition at line 137
  raises on the second, and the parser produces no tick, not even the first record's.
\<close>

theorem parse_bi5_no_tick_counterexample:
  "valid_date last_date \<and> length (example_record @ late_record) div 20 = 2 \<and>
   parse_bi5 (example_record @ late_record) last_date 23 = Inl OverflowError"
proof -
  have "(23::int) \<le> 23" "(0::int) \<le> 23"
    by simp_all
  from parse_bi5_fit [OF valid_last_date this(2,1), of "example_record @ late_record"]
  have "parse_bi5 (example_record @ late_record) last_date 23 = Inl OverflowError"
    by (simp add: last_hour_no_fit)
  moreover have "length (example_record @ late_record) div 20 = 2"
    by (simp add: example_record_def late_record_def)
  ultimately show ?thesis
    using valid_last_date by simp
qed



text \<open>
  Claim C9, as amended. For every buffer and every valid date and hour, the parser never
  raises from \<^verbatim>\<open>struct.unpack\<close> or from the \<^verbatim>\<open>datetime\<close> constructor. It returns
  \<open>len div 20\<close> ticks exactly when the hour's start plus the offset of every complete
  record is an instant a \<^verbatim>\<open>datetime\<close> can hold (before the end of 9999-12-31), which is
  so for every buffer when the hour starts at least \<open>2 ^ 32\<close> ms before that end;
  otherwise the \<^verbatim>\<open>datetime\<close> addition at line 137 raises \<^verbatim>\<open>OverflowError\<close>.
\<close>

theorem parse_bi5_raises_only_overflow:
  assumes "valid_date dt" and "0 \<le> hour" and "hour \<le> 23"
  shows "(timestamps_fit data dt hour \<longrightarrow>
          (\<exists>ticks. parse_bi5 data dt hour = Inr ticks \<and> length ticks = length data div 20)) \<and>
         (\<not> timestamps_fit data dt hour \<longrightarrow> parse_bi5 data dt hour = Inl OverflowError) \<and>
         (hour_in_range dt hour \<longrightarrow> timestamps_fit data dt hour)"
  using hour_in_range_fit [of dt hour data]
  by (simp add: parse_bi5_fit [OF assms])

theorem parse_bi5_raises_only_overflow_witness:
  "valid_date example_date \<and> hour_in_range example_date 3 \<and>
   timestamps_fit (example_record @ [1, 2, 3]) example_date 3 \<and>
   (\<exists>ticks. parse_bi5 (example_record @ [1, 2, 3]) example_date 3 = Inr ticks \<and> length ticks = 1)"
proof -
  let ?data = "example_record @ [1, 2, 3]"
  have "(3::int) \<le> 23" "(0::int) \<le> 3"
    by simp_all
  note w = parse_bi5_raises_only_overflow [OF valid_example_date this(2,1), of ?data]
  have n: "length ?data div 20 = 1"
    by (simp add: example_record_def)
  from w example_in_range have fit: "timestamps_fit ?data example_date 3"
    by blast
  with w
  have "\<exists>ticks. parse_bi5 ?data example_date 3 = Inr ticks \<and> length ticks = length ?data div 20"
    by blast
  then have "\<exists>ticks. parse_bi5 ?data example_date 3 = Inr ticks \<and> length ticks = 1"
    by (simp only: n)
  with fit valid_example_date example_in_range show ?thesis
    by blast
qed

text \<open>
  The claim as stated fails on the last hour of 9999-12-31: a record whose offset is one
  hour makes the addition at line 137 raise, so the branch that \<^verbatim>\<open>download_day\<close> guards
  is reached.
\<close>

theorem parse_bi5_overflow_counterexample:
  "valid_date last_date \<and> length late_record = 20 \<and>
   parse_bi5 late_record last_date 23 = Inl OverflowError"
proof -
  have "length late_record = 20"
    by (simp add: late_record_def)
  with late_parse valid_last_date show ?thesis
    by simp
qed

text \<open>
  Claim C10. Every tick the parser produces has a timestamp that is at least the hour's
  start and less than the hour's start plus \<open>2 ^ 32\<close> milliseconds, and non-negative ask
  and bid prices.
\<close>

theorem parse_bi5_tick_bounds:
  assumes "parse_bi5 data dt hour = Inr ticks" and "t \<in> set ticks"
  shows "hour_start dt hour \<le> timestamp t \<and> timestamp t < hour_start dt hour + 2 ^ 32 \<and>
         0 \<le> ask t \<and> 0 \<le> bid t"
proof -
  from assms have "ticks \<noteq> []"
    by auto
  with assms(1) have v: "valid_date dt" "0 \<le> hour" "hour \<le> 23"
    using parse_bi5_ticks_valid by blast+
  from assms(1) have "ticks =
      map (\<lambda>i. record_tick (hour_start dt hour) (record_at data i)) [0..<length data div 20]"
    by (simp add: parse_bi5_records [OF v] split: if_splits)
  with assms(2) obtain i where t: "t = record_tick (hour_start dt hour) (record_at data i)"
    by auto
  have "int (field_u32 (record_at data i) 0) < 2 ^ 32"
    using field_u32_less [of "record_at data i" 0]
    by (metis of_nat_less_iff of_nat_numeral of_nat_power)
  then show ?thesis
    by (simp add: t record_tick_def float_truediv_nonneg)
qed

theorem parse_bi5_tick_bounds_witness:
  "parse_bi5 (example_record @ [1, 2, 3]) example_date 3 = Inr [example_tick] \<and>
   hour_start example_date 3 \<le> timestamp example_tick \<and>
   timestamp example_tick < hour_start example_date 3 + 2 ^ 32 \<and>
   0 \<le> ask example_tick \<and> 0 \<le> bid example_tick"
proof -
  have p: "parse_bi5 (example_record @ [1, 2, 3]) example_date 3 = Inr [example_tick]"
    using valid_example_date example_in_range
    by (simp add: parse_bi5_in_range example_record_def record_at_def hour_start_example
        record_tick_example [unfolded example_record_def])
  have "example_tick \<in> set [example_tick]"
    by simp
  from parse_bi5_tick_bounds [OF p this] p show ?thesis
    by blast
qed

section \<open>The resource locator: claim C5\<close>

text \<open>
  Claim C5. For every instrument code, valid calendar date and hour in \<open>0..23\<close>, the
  resource path is \<^verbatim>\<open><base>/<INSTRUMENT>/<YYYY>/<MM0>/<DD>/<HH>h_ticks.bi5\<close>: the year
  in four digits, then the calendar month minus one, the day of the month and the hour,
  each in two digits, zero-padded. It is a function of its arguments alone. For
  2024-01-15, hour 3 and \<^verbatim>\<open>EURUSD\<close> the month field is \<^verbatim>\<open>00\<close>, the day field \<^verbatim>\<open>15\<close> and
  the hour field \<^verbatim>\<open>03\<close>.
\<close>

theorem get_tick_url_format:
  assumes "valid_date dt" and "0 \<le> hour" and "hour \<le> 23"
  shows "get_tick_url self dt hour =
           BASE_URL @ ''/'' @ pair self @ ''/'' @ four_digits (nat (year dt)) @ ''/''
             @ two_digits (nat (month dt - 1)) @ ''/'' @ two_digits (nat (day dt)) @ ''/''
             @ two_digits (nat hour) @ ''h_ticks.bi5'' \<and>
         get_tick_url eurusd example_date 3 =
           ''https://datafeed.dukascopy.com/datafeed/EURUSD/2024/00/15/03h_ticks.bi5''"
proof -
  from assms(1) have y: "nat (year dt) < 10000" "year dt = int (nat (year dt))"
    and m: "nat (month dt - 1) < 100" "month dt - 1 = int (nat (month dt - 1))"
    and d: "nat (day dt) < 100" "day dt = int (nat (day dt))"
    using days_in_month_le [of "year dt" "month dt"] unfolding valid_date_def by linarith+
  from assms(2,3) have h: "nat hour < 100" "hour = int (nat hour)"
    by simp_all
  have "format_0d 4 (year dt) = four_digits (nat (year dt))"
    using format_0d_4 [OF y(1)] y(2) by simp
  moreover have "format_0d 2 (month dt - 1) = two_digits (nat (month dt - 1))"
    using format_0d_2 [OF m(1)] m(2) by simp
  moreover have "format_0d 2 (day dt) = two_digits (nat (day dt))"
    using format_0d_2 [OF d(1)] d(2) by simp
  moreover have "format_0d 2 hour = two_digits (nat hour)"
    using format_0d_2 [OF h(1)] h(2) by simp
  moreover have "get_tick_url eurusd example_date 3 =
      ''https://datafeed.dukascopy.com/datafeed/EURUSD/2024/00/15/03h_ticks.bi5''"
    by (simp add: get_tick_url_def BASE_URL_def format_0d_def decimal.simps digit_char_def
        eurusd_def example_date_def)
  ultimately show ?thesis
    by (simp add: get_tick_url_def)
qed

theorem get_tick_url_format_witness:
  "valid_date example_date \<and>
   four_digits 2024 = ''2024'' \<and> two_digits (1 - 1) = ''00'' \<and> two_digits 15 = ''15'' \<and>
   two_digits 3 = ''03'' \<and>
   get_tick_url eurusd example_date 3 =
     ''https://datafeed.dukascopy.com/datafeed/EURUSD/2024/00/15/03h_ticks.bi5''"
proof -
  have "(0::int) \<le> 3" "(3::int) \<le> 23"
    by simp_all
  from get_tick_url_format [OF valid_example_date this, of eurusd]
  have "get_tick_url eurusd example_date 3 =
      ''https://datafeed.dukascopy.com/datafeed/EURUSD/2024/00/15/03h_ticks.bi5''"
    by blast
  moreover have "four_digits 2024 = ''2024''" "two_digits (1 - 1) = ''00''" "two_digits 15 = ''15''"
    "two_digits 3 = ''03''"
    by (simp_all add: four_digits_def two_digits_def digit_char_def)
  ultimately show ?thesis
    using valid_example_date by blast
qed

section \<open>The day orchestrator: claim C2\<close>

text \<open>
  Claim C2. For every date, \<^verbatim>\<open>download_day\<close> requests the resources of the hours 0 to 23
  in increasing order, all of them whatever fails, and returns the concatenation, in
  hour order, of the records of the hours. An hour contributes the frame its parse
  returns, and nothing when the fetch gives no data, the decompression raises or the
  parse raises. In particular, when hour 2 yields 100 ticks, hour 5 yields 50 ticks and
  the other hours nothing, the result is the 100 ticks of hour 2 followed by the 50 of
  hour 5, 150 records.
\<close>

theorem download_day_concatenates_hours:
  "download_day env self dt =
     (Inr (concat (map (hour_records env self dt) [0..23])),
      map (get_tick_url self dt) [0..23]) \<and>
   (\<forall>hour. download_file env (get_tick_url self dt hour) = None \<longrightarrow>
      hour_records env self dt hour = []) \<and>
   (\<forall>hour c e. download_file env (get_tick_url self dt hour) = Some c \<and>
        decompress_bi5 env c = Inl e \<longrightarrow>
      hour_records env self dt hour = []) \<and>
   (\<forall>hour c raw e. download_file env (get_tick_url self dt hour) = Some c \<and>
        decompress_bi5 env c = Inr raw \<and> parse_bi5 raw dt hour = Inl e \<longrightarrow>
      hour_records env self dt hour = []) \<and>
   (\<forall>hour c raw df. download_file env (get_tick_url self dt hour) = Some c \<and>
        decompress_bi5 env c = Inr raw \<and> parse_bi5 raw dt hour = Inr df \<longrightarrow>
      hour_records env self dt hour = df) \<and>
   (length (hour_records env self dt 2) = 100 \<and> length (hour_records env self dt 5) = 50 \<and>
    (\<forall>hour \<in> set [0..23]. hour \<noteq> 2 \<and> hour \<noteq> 5 \<longrightarrow> hour_records env self dt hour = []) \<longrightarrow>
      fst (download_day env self dt) = Inr (hour_records env self dt 2 @ hour_records env self dt 5) \<and>
      length (hour_records env self dt 2 @ hour_records env self dt 5) = 150)"
proof -
  have day: "download_day env self dt =
      (Inr (concat (map (hour_records env self dt) [0..23])), map (get_tick_url self dt) [0..23])"
    by (simp only: download_day_eq day_records_def day_urls_def)
  have two: "fst (download_day env self dt) =
        Inr (hour_records env self dt 2 @ hour_records env self dt 5) \<and>
      length (hour_records env self dt 2 @ hour_records env self dt 5) = 150"
    if len: "length (hour_records env self dt 2) = 100" "length (hour_records env self dt 5) = 50"
      and rest: "\<forall>hour \<in> set [0..23]. hour \<noteq> 2 \<and> hour \<noteq> 5 \<longrightarrow> hour_records env self dt hour = []"
  proof -
    from rest have "concat (map (hour_records env self dt) [0..23]) =
        hour_records env self dt 2 @ hour_records env self dt 5"
      unfolding hours_upto by simp
    with len show ?thesis
      by (simp add: day)
  qed
  show ?thesis
    using day two by (simp add: hour_records_def)
qed

theorem download_day_concatenates_hours_witness:
  "length (hour_records example_env eurusd example_date 2) = 100 \<and>
   length (hour_records example_env eurusd example_date 5) = 50 \<and>
   download_file example_env (get_tick_url eurusd example_date 9) = None \<and>
   hour_records example_env eurusd example_date 9 = [] \<and>
   fst (download_day example_env eurusd example_date) =
     Inr (hour_records example_env eurusd example_date 2 @
          hour_records example_env eurusd example_date 5) \<and>
   length (hour_records example_env eurusd example_date 2 @
           hour_records example_env eurusd example_date 5) = 150 \<and>
   snd (download_day example_env eurusd example_date) =
     map (get_tick_url eurusd example_date) [0..23]"
proof -
  note w = download_day_concatenates_hours [of example_env eurusd example_date]
  have rest: "\<forall>hour \<in> set [0..23]. hour \<noteq> 2 \<and> hour \<noteq> 5 \<longrightarrow>
      hour_records example_env eurusd example_date hour = []"
    using example_other_hours by blast
  have none: "download_file example_env (get_tick_url eurusd example_date 9) = None"
    by (simp add: download_file_def example_env_def example_url format_0d_def decimal.simps
        digit_char_def)
  from w none have "hour_records example_env eurusd example_date 9 = []"
    by blast
  moreover from w example_hour_2 example_hour_5 rest
  have "fst (download_day example_env eurusd example_date) =
     Inr (hour_records example_env eurusd example_date 2 @
          hour_records example_env eurusd example_date 5) \<and>
     length (hour_records example_env eurusd example_date 2 @
           hour_records example_env eurusd example_date 5) = 150"
    by blast
  moreover from w have "snd (download_day example_env eurusd example_date) =
     map (get_tick_url eurusd example_date) [0..23]"
    by simp
  ultimately show ?thesis
    using example_hour_2 example_hour_5 none by blast
qed

section \<open>The range orchestrator: claims C6, C7 and C8\<close>

text \<open>
  Claim C6. When the dates are valid and \<^verbatim>\<open>download_day\<close> returns an empty frame for each
  of them, \<^verbatim>\<open>download_range\<close> returns an empty frame, raises nothing and writes no file,
  whatever the save flag; it has requested the 24 resources of every date.
\<close>

theorem download_range_all_days_empty:
  assumes "validate_date_range env start_date end_date = Inr (start_dt, end_dt)"
    and "generate_date_range env start_dt end_dt = Inr dates"
    and "\<forall>dt \<in> set dates. fst (download_day env self dt) = Inr []"
  shows "download_range env self start_date end_date save =
           (Inr [], \<lparr>requests = concat (map (\<lambda>dt. map (get_tick_url self dt) [0..23]) dates),
                     files = []\<rparr>)"
proof -
  from assms(3) have "\<forall>dt \<in> set dates. day_records env self dt = []"
    by (simp add: download_day_eq)
  then have "range_records env self dates = []"
    by (simp add: range_records_def)
  then show ?thesis
    by (simp add: download_range_eq [OF assms(1,2)] range_urls_def day_urls_def [abs_def])
qed

theorem download_range_all_days_empty_witness:
  "fst (download_day dead_env eurusd example_date) = Inr [] \<and>
   fst (download_range dead_env eurusd ''2024-01-15'' ''2024-01-16'' True) = Inr [] \<and>
   files (snd (download_range dead_env eurusd ''2024-01-15'' ''2024-01-16'' True)) = []"
proof -
  have v: "validate_date_range dead_env ''2024-01-15'' ''2024-01-16'' = Inr (example_date, example_date)"
    and g: "generate_date_range dead_env example_date example_date = Inr [example_date]"
    by (simp_all add: dead_env_def)
  have d: "fst (download_day dead_env eurusd example_date) = Inr []"
    by (simp add: download_day_eq dead_days)
  then have "\<forall>dt \<in> set [example_date]. fst (download_day dead_env eurusd dt) = Inr []"
    by simp
  from download_range_all_days_empty [OF v g this, of True] d show ?thesis
    by simp
qed

text \<open>
  Claim C7, as amended. No failure of an hour leaves the core: \<^verbatim>\<open>download_day\<close> always
  returns a frame, since a request that raises or answers with a status other than 200
  is no data for the fetcher, and a decompression or parse that raises leaves the hour
  without records. An exception leaves \<^verbatim>\<open>download_range\<close> only when
  \<^verbatim>\<open>validate_date_range\<close> or \<^verbatim>\<open>generate_date_range\<close> raised it, or when the save flag
  is true, the dataset is not empty and the write at line 239, which stands outside
  every \<^verbatim>\<open>try\<close>, raised it. Once both helpers have returned, \<^verbatim>\<open>download_range\<close> returns
  a frame whenever the save flag is false or the file can be written, whatever the
  network and the decompressor do.
\<close>

theorem download_range_escaping_exceptions:
  "(\<exists>df. fst (download_day env self dt) = Inr df) \<and>
   (http_get env url = RequestRaised \<longrightarrow> download_file env url = None) \<and>
   (\<forall>code body. http_get env url = Response code body \<and> code \<noteq> 200 \<longrightarrow>
      download_file env url = None) \<and>
   (\<forall>err. fst (download_range env self start_date end_date save) = Inl err \<longrightarrow>
      validate_date_range env start_date end_date = Inl err \<or>
      (\<exists>start_dt end_dt. validate_date_range env start_date end_date = Inr (start_dt, end_dt) \<and>
         generate_date_range env start_dt end_dt = Inl err) \<or>
      (\<exists>start_dt end_dt dates.
         validate_date_range env start_date end_date = Inr (start_dt, end_dt) \<and>
         generate_date_range env start_dt end_dt = Inr dates \<and>
         save \<and> concat (map (day_records env self) dates) \<noteq> [] \<and>
         fs_write env (os_path_join (output_dir self)
           (pair self @ ''_'' @ start_date @ ''_'' @ end_date @ ''.csv'')) = Some err)) \<and>
   (\<forall>start_dt end_dt dates.
      validate_date_range env start_date end_date = Inr (start_dt, end_dt) \<and>
      generate_date_range env start_dt end_dt = Inr dates \<and>
      (save \<longrightarrow> fs_write env (os_path_join (output_dir self)
           (pair self @ ''_'' @ start_date @ ''_'' @ end_date @ ''.csv'')) = None) \<longrightarrow>
      (\<exists>df. fst (download_range env self start_date end_date save) = Inr df))"
proof -
  let ?path = "os_path_join (output_dir self)
      (pair self @ ''_'' @ start_date @ ''_'' @ end_date @ ''.csv'')"
  have path: "csv_path self start_date end_date = ?path"
    by (simp add: csv_path_def)
  have run: "\<exists>df. fst (download_range env self start_date end_date save) = Inr df"
    if "validate_date_range env start_date end_date = Inr (start_dt, end_dt)"
      and "generate_date_range env start_dt end_dt = Inr dates"
      and "save \<longrightarrow> fs_write env ?path = None" for start_dt end_dt dates
    using that(3) by (simp add: download_range_eq [OF that(1,2)] path)
  have esc: "validate_date_range env start_date end_date = Inl err \<or>
      (\<exists>start_dt end_dt. validate_date_range env start_date end_date = Inr (start_dt, end_dt) \<and>
         generate_date_range env start_dt end_dt = Inl err) \<or>
      (\<exists>start_dt end_dt dates.
         validate_date_range env start_date end_date = Inr (start_dt, end_dt) \<and>
         generate_date_range env start_dt end_dt = Inr dates \<and>
         save \<and> concat (map (day_records env self) dates) \<noteq> [] \<and>
         fs_write env ?path = Some err)"
    if raised: "fst (download_range env self start_date end_date save) = Inl err" for err
  proof (cases "validate_date_range env start_date end_date")
    case (Inl e)
    with raised show ?thesis
      by (simp add: download_range_invalid)
  next
    case (Inr p)
    obtain start_dt end_dt where p: "p = (start_dt, end_dt)"
      by (cases p)
    show ?thesis
    proof (cases "generate_date_range env start_dt end_dt")
      case (Inl e)
      with raised Inr p show ?thesis
        by (simp add: download_range_no_dates)
    next
      case dates: (Inr dates)
      from raised have "save \<and> range_records env self dates \<noteq> [] \<and> fs_write env ?path = Some err"
        by (auto simp: download_range_eq [OF Inr [unfolded p] dates] path
            split: if_splits option.splits)
      with Inr p dates show ?thesis
        by (auto simp: range_records_def)
    qed
  qed
  have "\<exists>df. fst (download_day env self dt) = Inr df"
    by (simp add: download_day_eq)
  moreover have "http_get env url = RequestRaised \<longrightarrow> download_file env url = None"
    by (simp add: download_file_def)
  moreover have "\<forall>code body. http_get env url = Response code body \<and> code \<noteq> 200 \<longrightarrow>
      download_file env url = None"
    by (simp add: download_file_def)
  ultimately show ?thesis
    using run esc by blast
qed

theorem download_range_escaping_exceptions_witness:
  "download_file example_env (get_tick_url eurusd example_date 9) = None \<and>
   parse_bi5 late_record last_date 23 = Inl OverflowError \<and>
   hour_records late_env eurusd last_date 23 = [] \<and>
   (\<exists>df. fst (download_day late_env eurusd last_date) = Inr df) \<and>
   (\<exists>df. fst (download_range late_env eurusd ''9999-12-31'' ''9999-12-31'' True) = Inr df)"
proof -
  have r: "http_get example_env (get_tick_url eurusd example_date 9) = RequestRaised"
    by (simp add: example_env_def example_url format_0d_def decimal.simps digit_char_def)
  have v: "validate_date_range late_env ''9999-12-31'' ''9999-12-31'' = Inr (last_date, last_date)"
    and g: "generate_date_range late_env last_date last_date = Inr [last_date]"
    by (simp_all add: late_env_def)
  from download_range_escaping_exceptions
    [of example_env eurusd example_date "get_tick_url eurusd example_date 9"] r
  have "download_file example_env (get_tick_url eurusd example_date 9) = None"
    by blast
  moreover from download_range_escaping_exceptions
    [of late_env eurusd last_date _ "''9999-12-31''" "''9999-12-31''" True] v g late_fs
  have "(\<exists>df. fst (download_day late_env eurusd last_date) = Inr df) \<and>
      (\<exists>df. fst (download_range late_env eurusd ''9999-12-31'' ''9999-12-31'' True) = Inr df)"
    by blast
  ultimately show ?thesis
    using late_parse late_hour_23 by blast
qed

text \<open>
  The claim as stated fails when the output file cannot be written: hour 3 delivers one
  tick, both helpers return, and \<^verbatim>\<open>download_range\<close> with the save flag raises the
  \<^verbatim>\<open>OSError\<close> of \<^verbatim>\<open>to_csv\<close>, which is not a \<^verbatim>\<open>ValidationError\<close>.
\<close>

theorem download_range_write_counterexample:
  "validate_date_range locked_env ''2024-01-15'' ''2024-01-15'' = Inr (example_date, example_date) \<and>
   generate_date_range locked_env example_date example_date = Inr [example_date] \<and>
   fst (download_day locked_env eurusd example_date) = Inr [example_tick] \<and>
   fst (download_range locked_env eurusd ''2024-01-15'' ''2024-01-15'' True) = Inl OSError \<and>
   OSError \<noteq> ValidationError"
proof -
  have v: "validate_date_range locked_env ''2024-01-15'' ''2024-01-15'' = Inr (example_date, example_date)"
    and g: "generate_date_range locked_env example_date example_date = Inr [example_date]"
    by (simp_all add: locked_env_def)
  have "fst (download_range locked_env eurusd ''2024-01-15'' ''2024-01-15'' True) = Inl OSError"
    by (simp add: download_range_eq [OF v g] range_records_def locked_day)
      (simp add: locked_env_def)
  moreover have "fst (download_day locked_env eurusd example_date) = Inr [example_tick]"
    by (simp add: download_day_eq locked_day)
  ultimately show ?thesis
    using v g by simp
qed

text \<open>
  Claim C8. The files \<^verbatim>\<open>download_range\<close> writes are: none when it raises (also when
  it is the write that raises), none when
  the save flag is false, none when the dataset it returns is empty, and otherwise
  exactly one, at \<^verbatim>\<open>os.path.join(output_dir, <pair>_<start>_<end>.csv)\<close>, with the header
  \<^verbatim>\<open>timestamp, ask, bid, ask_volume, bid_volume\<close> and the rows of the returned dataset,
  one per tick. The library's sort is taken to return each row of its input once.
\<close>

theorem download_range_writes_once:
  assumes "sorts_by_timestamp (sort_rows env)"
  shows "files (snd (download_range env self start_date end_date save)) =
           (case fst (download_range env self start_date end_date save) of
              Inl err \<Rightarrow> []
            | Inr df \<Rightarrow>
                if save \<and> df \<noteq> []
                then [\<lparr>path = os_path_join (output_dir self)
                                (pair self @ ''_'' @ start_date @ ''_'' @ end_date @ ''.csv''),
                       header = [''timestamp'', ''ask'', ''bid'', ''ask_volume'', ''bid_volume''],
                       rows = df\<rparr>]
                else [])"
proof (cases "validate_date_range env start_date end_date")
  case (Inl e)
  then show ?thesis
    by (simp add: download_range_invalid)
next
  case (Inr p)
  obtain start_dt end_dt where p: "p = (start_dt, end_dt)"
    by (cases p)
  show ?thesis
  proof (cases "generate_date_range env start_dt end_dt")
    case (Inl e)
    with Inr p show ?thesis
      by (simp add: download_range_no_dates)
  next
    case dates: (Inr dates)
    show ?thesis
      using sorts_by_timestamp_Nil [OF assms, of "range_records env self dates"]
      by (simp add: download_range_eq [OF Inr [unfolded p] dates] csv_path_def columns_def
          split: option.splits)
  qed
qed

theorem download_range_writes_once_witness:
  "sorts_by_timestamp (sort_rows example_env) \<and>
   (\<exists>df. df \<noteq> [] \<and>
      fst (download_range example_env eurusd ''2024-01-15'' ''2024-01-15'' True) = Inr df \<and>
      files (snd (download_range example_env eurusd ''2024-01-15'' ''2024-01-15'' True)) =
        [\<lparr>path = ''data/raw/EURUSD_2024-01-15_2024-01-15.csv'',
          header = [''timestamp'', ''ask'', ''bid'', ''ask_volume'', ''bid_volume''],
          rows = df\<rparr>]) \<and>
   files (snd (download_range example_env eurusd ''2024-01-15'' ''2024-01-15'' False)) = [] \<and>
   files (snd (download_range dead_env eurusd ''2024-01-15'' ''2024-01-15'' True)) = [] \<and>
   files (snd (download_range locked_env eurusd ''2024-01-15'' ''2024-01-15'' True)) = []"
proof -
  let ?all = "range_records example_env eurusd [example_date]"
  have ne: "?all \<noteq> []"
    using example_hour_2 by (auto simp: example_range)
  then have sne: "sort_rows example_env ?all \<noteq> []"
    by (simp add: sorts_by_timestamp_Nil [OF example_sort])
  have run: "fst (download_range example_env eurusd ''2024-01-15'' ''2024-01-15'' save) =
      Inr (sort_rows example_env ?all)" for save
    using ne by (simp add: download_range_eq [OF example_validate example_generate] example_fs)
  have p: "os_path_join (output_dir eurusd) (pair eurusd @ ''_'' @ ''2024-01-15'' @ ''_'' @ ''2024-01-15'' @ ''.csv'')
      = ''data/raw/EURUSD_2024-01-15_2024-01-15.csv''"
    by (simp add: os_path_join_def eurusd_def)
  have dv: "validate_date_range dead_env ''2024-01-15'' ''2024-01-15'' = Inr (example_date, example_date)"
    and dg: "generate_date_range dead_env example_date example_date = Inr [example_date]"
    by (simp_all add: dead_env_def)
  have dead: "fst (download_range dead_env eurusd ''2024-01-15'' ''2024-01-15'' True) = Inr []"
    by (simp add: download_range_eq [OF dv dg] range_records_def dead_days)
  have sd: "sorts_by_timestamp (sort_rows dead_env)"
    by (simp add: dead_env_def sorts_by_timestamp_stable)
  from download_range_writes_once [OF example_sort, of eurusd "''2024-01-15''" "''2024-01-15''" True]
  have "files (snd (download_range example_env eurusd ''2024-01-15'' ''2024-01-15'' True)) =
        [\<lparr>path = ''data/raw/EURUSD_2024-01-15_2024-01-15.csv'',
          header = [''timestamp'', ''ask'', ''bid'', ''ask_volume'', ''bid_volume''],
          rows = sort_rows example_env ?all\<rparr>]"
    unfolding run p using sne by simp
  moreover from download_range_writes_once [OF example_sort, of eurusd "''2024-01-15''" "''2024-01-15''" False]
  have "files (snd (download_range example_env eurusd ''2024-01-15'' ''2024-01-15'' False)) = []"
    unfolding run by simp
  moreover from download_range_writes_once [OF sd, of eurusd "''2024-01-15''" "''2024-01-15''" True]
  have "files (snd (download_range dead_env eurusd ''2024-01-15'' ''2024-01-15'' True)) = []"
    unfolding dead by simp
  moreover have "files (snd (download_range locked_env eurusd ''2024-01-15'' ''2024-01-15'' True)) = []"
  proof -
    have lv: "validate_date_range locked_env ''2024-01-15'' ''2024-01-15'' =
        Inr (example_date, example_date)"
      and lg: "generate_date_range locked_env example_date example_date = Inr [example_date]"
      by (simp_all add: locked_env_def)
    have raised: "fst (download_range locked_env eurusd ''2024-01-15'' ''2024-01-15'' True) =
        Inl OSError"
      by (simp add: download_range_eq [OF lv lg] range_records_def locked_day)
        (simp add: locked_env_def)
    have sl: "sorts_by_timestamp (sort_rows locked_env)"
      by (simp add: locked_env_def sorts_by_timestamp_stable)
    from download_range_writes_once [OF sl, of eurusd "''2024-01-15''" "''2024-01-15''" True]
    show ?thesis
      unfolding raised by simp
  qed
  ultimately show ?thesis
    using run sne example_sort by blast
qed

end
